theory Spec2Isabelle
  imports Complex_Main "HOL-Library.Word"
begin

section \<open>Bytes and the \<open>struct\<close> module\<close>

text \<open>
  A Python \<open>bytes\<close> object is a list of 8-bit words. Python integers are unbounded and are
  modelled as \<open>int\<close>. The formats of server.py and client.py all start with \<open>!\<close>: network byte
  order (big-endian), standard sizes, no padding. \<open>struct.pack\<close> raises \<open>struct.error\<close> when
  a value does not fit its field, \<open>struct.unpack_from\<close> raises it when the buffer holds fewer
  than \<open>calcsize\<close> bytes from the offset on.
\<close>

type_synonym byte = "8 word"

datatype fmt_code = FmtB | FmtH | FmtI | FmtQ

datatype py_error =
  StructError | ValueError | UnicodeDecodeError | SocketTimeout | OSError | ZeroDivisionError

fun code_size :: "fmt_code \<Rightarrow> nat" where
  "code_size FmtB = 1"
| "code_size FmtH = 2"
| "code_size FmtI = 4"
| "code_size FmtQ = 8"

definition calcsize :: "fmt_code list \<Rightarrow> nat" where
  "calcsize fmt = sum_list (map code_size fmt)"

text \<open>The \<open>n\<close> big-endian bytes of \<open>v\<close>, most significant first.\<close>

fun be_bytes :: "nat \<Rightarrow> int \<Rightarrow> byte list" where
  "be_bytes 0 v = []"
| "be_bytes (Suc n) v = word_of_int (v div 256 ^ n) # be_bytes n v"

fun be_int :: "byte list \<Rightarrow> int" where
  "be_int [] = 0"
| "be_int (b # bs) = uint b * 256 ^ length bs + be_int bs"

definition pack_field :: "fmt_code \<Rightarrow> int \<Rightarrow> py_error + byte list" where
  "pack_field c v =
     (if 0 \<le> v \<and> v < 256 ^ code_size c then Inr (be_bytes (code_size c) v)
      else Inl StructError)"

fun struct_pack :: "fmt_code list \<Rightarrow> int list \<Rightarrow> py_error + byte list" where
  "struct_pack [] [] = Inr []"
| "struct_pack (c # cs) (v # vs) =
     (case pack_field c v of
        Inl e \<Rightarrow> Inl e
      | Inr bs \<Rightarrow> (case struct_pack cs vs of Inl e \<Rightarrow> Inl e | Inr rest \<Rightarrow> Inr (bs @ rest)))"
| "struct_pack _ _ = Inl StructError"

fun unpack_fields :: "fmt_code list \<Rightarrow> byte list \<Rightarrow> int list" where
  "unpack_fields [] bs = []"
| "unpack_fields (c # cs) bs =
     be_int (take (code_size c) bs) # unpack_fields cs (drop (code_size c) bs)"

definition unpack_from :: "fmt_code list \<Rightarrow> byte list \<Rightarrow> nat \<Rightarrow> py_error + int list" where
  "unpack_from fmt buffer offset =
     (if length buffer < offset + calcsize fmt then Inl StructError
      else Inr (unpack_fields fmt (drop offset buffer)))"

section \<open>Protocol constants\<close>

definition MAGIC_COOKIE :: int where "MAGIC_COOKIE = 0xabcddcba"
definition MSG_TYPE_OFFER :: int where "MSG_TYPE_OFFER = 0x2"
definition MSG_TYPE_REQUEST :: int where "MSG_TYPE_REQUEST = 0x3"
definition MSG_TYPE_PAYLOAD :: int where "MSG_TYPE_PAYLOAD = 0x4"
definition CHUNK_SIZE :: int where "CHUNK_SIZE = 1024"

section \<open>Decoding received datagrams\<close>

text \<open>
  Each receive loop decodes in place. The result of one loop body is \<open>Inl e\<close> when an
  exception escapes the decoding statements, \<open>Inr None\<close> when the body runs \<open>continue\<close>
  (the datagram is skipped) and \<open>Inr (Some m)\<close> when the datagram is accepted.

  client.py, \<open>main\<close>, lines 139 to 147: the discovery listener.
\<close>

definition decode_offer :: "byte list \<Rightarrow> py_error + (int \<times> int) option" where
  "decode_offer data =
     (if length data < 9 then Inr None
      else case unpack_from [FmtI, FmtB] data 0 of
        Inl e \<Rightarrow> Inl e
      | Inr hdr \<Rightarrow>
          (if hdr ! 0 = MAGIC_COOKIE \<and> hdr ! 1 = MSG_TYPE_OFFER then
             (case unpack_from [FmtH, FmtH] data 5 of
                Inl e \<Rightarrow> Inl e
              | Inr ports \<Rightarrow> Inr (Some (ports ! 0, ports ! 1)))
           else Inr None))"

text \<open>server.py, \<open>main\<close>, lines 177 to 184: the request dispatcher's UDP half.\<close>

definition decode_request :: "byte list \<Rightarrow> py_error + int option" where
  "decode_request data =
     (if length data < 13 then Inr None
      else case unpack_from [FmtI, FmtB] data 0 of
        Inl e \<Rightarrow> Inl e
      | Inr hdr \<Rightarrow>
          (if hdr ! 0 \<noteq> MAGIC_COOKIE \<or> hdr ! 1 \<noteq> MSG_TYPE_REQUEST then Inr None
           else case unpack_from [FmtQ] data 5 of
             Inl e \<Rightarrow> Inl e
           | Inr fs \<Rightarrow> Inr (Some (fs ! 0))))"

text \<open>
  client.py, \<open>udp_download_worker\<close>, lines 81 to 90: an accepted payload datagram yields
  \<open>(total_seg, current_seg, payload)\<close>, the payload being \<open>data[5 + 16:]\<close>.
\<close>

definition decode_payload :: "byte list \<Rightarrow> py_error + (int \<times> int \<times> byte list) option" where
  "decode_payload data =
     (if length data < 21 then Inr None
      else case unpack_from [FmtI, FmtB] data 0 of
        Inl e \<Rightarrow> Inl e
      | Inr hdr \<Rightarrow>
          (if hdr ! 0 \<noteq> MAGIC_COOKIE \<or> hdr ! 1 \<noteq> MSG_TYPE_PAYLOAD then Inr None
           else case unpack_from [FmtQ, FmtQ] data 5 of
             Inl e \<Rightarrow> Inl e
           | Inr segs \<Rightarrow> Inr (Some (segs ! 0, segs ! 1, drop (5 + 16) data))))"

text \<open>The message a buffer claims to be: its first four bytes and its fifth.\<close>

definition magic_of :: "byte list \<Rightarrow> int" where
  "magic_of data = be_int (take 4 data)"

definition type_of :: "byte list \<Rightarrow> int" where
  "type_of data = be_int (take 1 (drop 4 data))"

section \<open>The offer the broadcaster builds\<close>

text \<open>server.py, \<open>broadcast_offers\<close>, line 134.\<close>

definition offer_packet :: "int \<Rightarrow> int \<Rightarrow> py_error + byte list" where
  "offer_packet udp_port tcp_port =
     struct_pack [FmtI, FmtB, FmtH, FmtH] [MAGIC_COOKIE, MSG_TYPE_OFFER, udp_port, tcp_port]"

section \<open>The UDP segmented transfer responder\<close>

text \<open>
  Python slicing \<open>xs[:n]\<close>: a negative bound counts from the end, and a bound beyond either
  end is clamped.
\<close>

definition py_slice_to :: "'a list \<Rightarrow> int \<Rightarrow> 'a list" where
  "py_slice_to xs n = (if 0 \<le> n then take (nat n) xs else take (nat (int (length xs) + n)) xs)"

text \<open>\<open>range(n)\<close>: empty when \<open>n \<le> 0\<close>.\<close>

definition py_range :: "int \<Rightarrow> int list" where
  "py_range n = map int [0..<nat n]"

text \<open>\<open>b"B" * chunk\<close> and \<open>b"A" * chunk\<close>: empty for a count below one.\<close>

definition bytes_times :: "byte \<Rightarrow> int \<Rightarrow> byte list" where
  "bytes_times b n = replicate (nat n) b"

text \<open>
  server.py, \<open>handle_udp_request\<close>, lines 102 to 119: the loop over the segment indices.
  \<open>sendto_ok seg_idx\<close> says whether the \<open>sendto\<close> of that segment returns (\<open>True\<close>) or
  raises; a raise is caught and breaks the loop. \<open>struct.pack\<close> stands outside the
  \<^verbatim>\<open>try\<close>, so its error leaves the function. The result is the list of datagrams handed to
  the socket, in order, and the exception that escaped, if any.

  \<open>CHUNK_SIZE\<close> is a module constant of server.py. The loop takes it as the parameter
  \<open>chunk\<close>, so that properties can be stated for every segment size;
  \<open>handle_udp_request\<close> below is the function of the source, at \<open>CHUNK_SIZE\<close>.
\<close>

fun send_segments ::
  "int \<Rightarrow> (int \<Rightarrow> bool) \<Rightarrow> int \<Rightarrow> int \<Rightarrow> int list \<Rightarrow> byte list list \<times> py_error option" where
  "send_segments chunk sendto_ok file_size total_segments [] = ([], None)"
| "send_segments chunk sendto_ok file_size total_segments (seg_idx # rest) =
     (let current_offset = seg_idx * chunk;
          remaining = file_size - current_offset;
          payload_size = min chunk remaining
      in case struct_pack [FmtI, FmtB, FmtQ, FmtQ]
                [MAGIC_COOKIE, MSG_TYPE_PAYLOAD, total_segments, seg_idx] of
           Inl e \<Rightarrow> ([], Some e)
         | Inr header \<Rightarrow>
             (let packet = header @ py_slice_to (bytes_times 0x42 chunk) payload_size
              in if sendto_ok seg_idx then
                   (let (sent, err) = send_segments chunk sendto_ok file_size total_segments rest
                    in (packet # sent, err))
                 else ([], None)))"

definition handle_udp_request_with ::
  "int \<Rightarrow> (int \<Rightarrow> bool) \<Rightarrow> int \<Rightarrow> byte list list \<times> py_error option" where
  "handle_udp_request_with chunk sendto_ok file_size =
     (if chunk = 0 then ([], Some ZeroDivisionError)
      else let total_segments = (file_size + chunk - 1) div chunk
           in send_segments chunk sendto_ok file_size total_segments (py_range total_segments))"

definition handle_udp_request :: "(int \<Rightarrow> bool) \<Rightarrow> int \<Rightarrow> byte list list \<times> py_error option" where
  "handle_udp_request = handle_udp_request_with CHUNK_SIZE"

section \<open>Text: \<open>bytes.decode\<close>, \<open>str.strip\<close> and \<open>int\<close>\<close>

text \<open>
  A Python \<open>str\<close> is a list of code points. \<open>data.decode()\<close> is the strict UTF-8 codec: it
  raises \<open>UnicodeDecodeError\<close> on a stray continuation byte, a truncated or overlong
  sequence, a surrogate or a code point beyond \<open>U+10FFFF\<close>.
\<close>

definition is_cont :: "nat \<Rightarrow> bool" where
  "is_cont b = (0x80 \<le> b \<and> b \<le> 0xBF)"

fun utf8_decode :: "nat list \<Rightarrow> nat list option" where
  "utf8_decode [] = Some []"
| "utf8_decode (b0 # bs) =
     (if b0 < 0x80 then map_option ((#) b0) (utf8_decode bs)
      else if 0xC2 \<le> b0 \<and> b0 \<le> 0xDF then
        (case bs of
           b1 # r \<Rightarrow>
             if is_cont b1
             then map_option ((#) ((b0 - 0xC0) * 64 + (b1 - 0x80))) (utf8_decode r)
             else None
         | _ \<Rightarrow> None)
      else if 0xE0 \<le> b0 \<and> b0 \<le> 0xEF then
        (case bs of
           b1 # b2 # r \<Rightarrow>
             if is_cont b1 \<and> is_cont b2 \<and> (b0 \<noteq> 0xE0 \<or> 0xA0 \<le> b1) \<and> (b0 \<noteq> 0xED \<or> b1 \<le> 0x9F)
             then map_option ((#) ((b0 - 0xE0) * 4096 + (b1 - 0x80) * 64 + (b2 - 0x80)))
                    (utf8_decode r)
             else None
         | _ \<Rightarrow> None)
      else if 0xF0 \<le> b0 \<and> b0 \<le> 0xF4 then
        (case bs of
           b1 # b2 # b3 # r \<Rightarrow>
             if is_cont b1 \<and> is_cont b2 \<and> is_cont b3
                \<and> (b0 \<noteq> 0xF0 \<or> 0x90 \<le> b1) \<and> (b0 \<noteq> 0xF4 \<or> b1 \<le> 0x8F)
             then map_option
                    ((#) ((b0 - 0xF0) * 262144 + (b1 - 0x80) * 4096 + (b2 - 0x80) * 64 + (b3 - 0x80)))
                    (utf8_decode r)
             else None
         | _ \<Rightarrow> None)
      else None)"

definition bytes_decode :: "byte list \<Rightarrow> py_error + nat list" where
  "bytes_decode data =
     (case utf8_decode (map unat data) of None \<Rightarrow> Inl UnicodeDecodeError | Some s \<Rightarrow> Inr s)"

text \<open>
  \<open>str.isspace\<close> on one character, which is what \<open>str.strip()\<close> removes at both ends:
  the ASCII controls 9 to 13 and 28 to 31, the space, and the Unicode spaces.
\<close>

definition isspace :: "nat \<Rightarrow> bool" where
  "isspace c =
     ((9 \<le> c \<and> c \<le> 13) \<or> (28 \<le> c \<and> c \<le> 32) \<or> c = 0x85 \<or> c = 0xA0 \<or> c = 0x1680
      \<or> (0x2000 \<le> c \<and> c \<le> 0x200A) \<or> c = 0x2028 \<or> c = 0x2029 \<or> c = 0x202F
      \<or> c = 0x205F \<or> c = 0x3000)"

definition py_strip :: "nat list \<Rightarrow> nat list" where
  "py_strip s = rev (dropWhile isspace (rev (dropWhile isspace s)))"

text \<open>
  \<open>int(line)\<close> on a \<open>str\<close>, base ten. The interpreter first maps the text to ASCII: a
  character below 127 stays, any other space becomes a blank, any other decimal digit of the
  Unicode database becomes its ASCII digit, anything else becomes \<open>?\<close>, which no integer
  literal contains. Then it skips blanks (the C locale's: 9 to 13 and 32), reads an optional
  sign, then digits with single underscores between them, then blanks to the end. Anything
  else raises \<open>ValueError\<close>, as does a literal of more than \<open>sys.int_max_str_digits\<close>
  digits when that limit is not zero.

  The table of decimal digits beyond ASCII belongs to the interpreter's Unicode database
  and the digit limit to its configuration; both are parameters of the model.
\<close>

record py_runtime =
  todecimal :: "nat \<Rightarrow> nat option"
  int_max_str_digits :: nat

definition PY_ISSPACE :: "nat \<Rightarrow> bool" where
  "PY_ISSPACE c = ((9 \<le> c \<and> c \<le> 13) \<or> c = 32)"

definition ascii_digit :: "nat \<Rightarrow> bool" where
  "ascii_digit c = (48 \<le> c \<and> c \<le> 57)"

definition digit_or_underscore :: "nat \<Rightarrow> bool" where
  "digit_or_underscore c = (ascii_digit c \<or> c = 95)"

definition to_ascii :: "py_runtime \<Rightarrow> nat \<Rightarrow> nat" where
  "to_ascii R c =
     (if c < 127 then c
      else if isspace c then 32
      else case todecimal R c of Some d \<Rightarrow> 48 + d mod 10 | None \<Rightarrow> 63)"

fun double_underscore :: "nat list \<Rightarrow> bool" where
  "double_underscore (a # b # cs) = ((a = 95 \<and> b = 95) \<or> double_underscore (b # cs))"
| "double_underscore _ = False"

definition digits_value :: "nat list \<Rightarrow> int" where
  "digits_value ds = foldl (\<lambda>acc c. 10 * acc + int (c - 48)) 0 ds"

definition py_int :: "py_runtime \<Rightarrow> nat list \<Rightarrow> py_error + int" where
  "py_int R s =
     (let a = dropWhile PY_ISSPACE (map (to_ascii R) s);
          sign = (case a of c # cs \<Rightarrow> if c = 45 then - 1 else 1 | [] \<Rightarrow> 1);
          unsigned = (case a of c # cs \<Rightarrow> if c = 43 \<or> c = 45 then cs else a | [] \<Rightarrow> []);
          body = takeWhile digit_or_underscore unsigned;
          rest = dropWhile PY_ISSPACE (dropWhile digit_or_underscore unsigned);
          digits = filter ascii_digit body
      in if body = [] \<or> hd body = 95 \<or> last body = 95 \<or> double_underscore body \<or> rest \<noteq> []
         then Inl ValueError
         else if 0 < int_max_str_digits R \<and> int_max_str_digits R < length digits
         then Inl ValueError
         else Inr (sign * digits_value digits))"

section \<open>The TCP transfer responder\<close>

text \<open>
  What one call of \<open>recv\<close> or \<open>recvfrom\<close> does: it returns bytes (none when a stream's peer
  has closed) or raises.
\<close>

datatype recv_result = Recv "byte list" | RecvRaises py_error

text \<open>
  server.py, \<open>handle_tcp_connection\<close>, lines 54 to 64: read until the buffer holds a
  newline. The connection has a timeout of five seconds (line 196), so when the peer sends
  nothing more \<open>recv\<close> raises \<open>socket.timeout\<close>: that is the empty list of events.
\<close>

datatype request_read = Disconnected | Buffer "byte list" | ReadRaised py_error

fun recv_request :: "byte list \<Rightarrow> recv_result list \<Rightarrow> request_read" where
  "recv_request data [] = ReadRaised SocketTimeout"
| "recv_request data (RecvRaises e # rest) = ReadRaised e"
| "recv_request data (Recv chunk # rest) =
     (if chunk = [] then Disconnected
      else if 0x0A \<in> set (data @ chunk) then Buffer (data @ chunk)
      else recv_request (data @ chunk) rest)"

text \<open>
  Lines 76 to 82: the send loop. \<open>sendall_ok k\<close> says whether the \<open>k\<close>-th call of
  \<open>sendall\<close> returns or raises. The result is the list of chunks written and the exception
  that ended the loop, if any.
\<close>

function send_loop ::
  "(nat \<Rightarrow> bool) \<Rightarrow> int \<Rightarrow> int \<Rightarrow> nat \<Rightarrow> byte list list \<times> py_error option" where
  "send_loop sendall_ok file_size bytes_sent k =
     (if bytes_sent < file_size then
        (let remaining = file_size - bytes_sent;
             to_send = min remaining CHUNK_SIZE
         in if sendall_ok k then
              (let (chunks, err) = send_loop sendall_ok file_size (bytes_sent + to_send) (Suc k)
               in (py_slice_to (bytes_times 0x41 CHUNK_SIZE) to_send # chunks, err))
            else ([], Some OSError))
      else ([], None))"
  by pat_completeness auto
termination
  by (relation "measure (\<lambda>(ok, file_size, bytes_sent, k). nat (file_size - bytes_sent))")
     (auto simp: CHUNK_SIZE_def)

declare send_loop.simps [simp del]

datatype tcp_status = ClientDisconnected | InvalidFileSize | DoneSending int | ErrorWith py_error

record tcp_run =
  tcp_sent :: "byte list list"
  tcp_status :: tcp_status
  tcp_closed :: bool

text \<open>
  The body of the \<^verbatim>\<open>try\<close> of \<open>handle_tcp_connection\<close>: the chunks written and how the
  body ended. \<open>data.decode()\<close> stands outside the inner \<^verbatim>\<open>try\<close>, so its error reaches the
  outer handler; the \<open>ValueError\<close> of \<open>int\<close> is caught by the inner one.
\<close>

definition tcp_body ::
  "py_runtime \<Rightarrow> recv_result list \<Rightarrow> (nat \<Rightarrow> bool) \<Rightarrow> byte list list \<times> tcp_status" where
  "tcp_body R events sendall_ok =
     (case recv_request [] events of
        Disconnected \<Rightarrow> ([], ClientDisconnected)
      | ReadRaised e \<Rightarrow> ([], ErrorWith e)
      | Buffer data \<Rightarrow>
          (case bytes_decode data of
             Inl e \<Rightarrow> ([], ErrorWith e)
           | Inr text \<Rightarrow>
               (case py_int R (py_strip text) of
                  Inl e \<Rightarrow> ([], InvalidFileSize)
                | Inr file_size \<Rightarrow>
                    (case send_loop sendall_ok file_size 0 0 of
                       (chunks, Some e) \<Rightarrow> (chunks, ErrorWith e)
                     | (chunks, None) \<Rightarrow> (chunks, DoneSending file_size)))))"

text \<open>The \<^verbatim>\<open>finally\<close> clause closes the socket on every path.\<close>

definition handle_tcp_connection ::
  "py_runtime \<Rightarrow> recv_result list \<Rightarrow> (nat \<Rightarrow> bool) \<Rightarrow> tcp_run" where
  "handle_tcp_connection R events sendall_ok =
     (let (chunks, status) = tcp_body R events sendall_ok
      in \<lparr>tcp_sent = chunks, tcp_status = status, tcp_closed = True\<rparr>)"

section \<open>The client's workers\<close>

text \<open>
  What a worker thread leaves behind: the values it assigned to its slot
  \<open>results_list[idx]\<close>, in order, and whether the thread function returned or an exception
  escaped it.
\<close>

datatype thread_end = Returned | Died py_error

record 'r worker_run =
  slot_writes :: "'r list"
  thread_end :: thread_end

text \<open>
  Clock readings and throughputs are Python floats; the model computes with them as real
  numbers. \<open>/\<close> raises \<open>ZeroDivisionError\<close> on a zero divisor.
\<close>

definition py_truediv :: "real \<Rightarrow> real \<Rightarrow> py_error + real" where
  "py_truediv a b = (if b = 0 then Inl ZeroDivisionError else Inr (a / b))"

text \<open>client.py, lines 52 and 108: \<open>(total * 8) / duration if duration > 0 else 0\<close>.\<close>

definition speed_bps_of :: "int \<Rightarrow> real \<Rightarrow> py_error + real" where
  "speed_bps_of total_received duration =
     (if duration > 0 then py_truediv (real_of_int (total_received * 8)) duration else Inr 0)"

text \<open>
  client.py, \<open>tcp_download_worker\<close>, lines 42 to 46. The socket has no timeout: when the
  peer neither sends nor closes, \<open>recv\<close> never returns, which is the empty list of events
  and the result \<open>None\<close>. An exception of \<open>recv\<close> is caught at line 47 and leaves the
  count as it is.
\<close>

fun tcp_recv_loop :: "int \<Rightarrow> int \<Rightarrow> recv_result list \<Rightarrow> int option" where
  "tcp_recv_loop file_size total_received events =
     (if total_received < file_size then
        (case events of
           [] \<Rightarrow> None
         | RecvRaises e # rest \<Rightarrow> Some total_received
         | Recv data # rest \<Rightarrow>
             if data = [] then Some total_received
             else tcp_recv_loop file_size (total_received + int (length data)) rest)
      else Some total_received)"

text \<open>
  What the connection does for a TCP worker: \<open>connect\<close> raises, or building and sending
  the request line raises, or the request is sent and \<open>recv\<close> sees the given events.
\<close>

datatype tcp_conn = ConnectRaises py_error | SendallRaises py_error | Established "recv_result list"

definition tcp_download_worker ::
  "tcp_conn \<Rightarrow> int \<Rightarrow> real \<Rightarrow> real \<Rightarrow> (real \<times> real \<times> int) worker_run option" where
  "tcp_download_worker conn file_size start_time end_time =
     (case (case conn of
              ConnectRaises e \<Rightarrow> Some 0
            | SendallRaises e \<Rightarrow> Some 0
            | Established events \<Rightarrow> tcp_recv_loop file_size 0 events) of
        None \<Rightarrow> None
      | Some total_received \<Rightarrow>
          (let duration = end_time - start_time
           in case speed_bps_of total_received duration of
                Inl e \<Rightarrow> Some \<lparr>slot_writes = [], thread_end = Died e\<rparr>
              | Inr speed_bps \<Rightarrow>
                  Some \<lparr>slot_writes = [(duration, speed_bps, total_received)],
                        thread_end = Returned\<rparr>))"

text \<open>
  client.py, \<open>udp_download_worker\<close>, lines 79 to 102. The socket has a timeout of one
  second, so when no datagram is left \<open>recvfrom\<close> raises \<open>socket.timeout\<close> and the loop
  ends: that is the empty list of events. Any exception ends the loop.
\<close>

record udp_state =
  total_bytes_received :: int
  total_segments :: "int option"
  received_segments :: "int set"

definition udp_initial :: udp_state where
  "udp_initial = \<lparr>total_bytes_received = 0, total_segments = None, received_segments = {}\<rparr>"

fun udp_recv_loop :: "udp_state \<Rightarrow> recv_result list \<Rightarrow> udp_state" where
  "udp_recv_loop st [] = st"
| "udp_recv_loop st (RecvRaises e # rest) = st"
| "udp_recv_loop st (Recv data # rest) =
     (case decode_payload data of
        Inl e \<Rightarrow> st
      | Inr None \<Rightarrow> udp_recv_loop st rest
      | Inr (Some (total_seg, current_seg, payload)) \<Rightarrow>
          udp_recv_loop
            \<lparr>total_bytes_received = total_bytes_received st + int (length payload),
             total_segments = (if total_segments st = None then Some total_seg else total_segments st),
             received_segments = insert current_seg (received_segments st)\<rparr>
            rest)"

text \<open>Lines 106 to 114: the result computed from the final state and the two clock readings.\<close>

definition udp_result ::
  "udp_state \<Rightarrow> real \<Rightarrow> real \<Rightarrow> py_error + (real \<times> real \<times> int \<times> real)" where
  "udp_result st start_time end_time =
     (let duration = end_time - start_time
      in case speed_bps_of (total_bytes_received st) duration of
           Inl e \<Rightarrow> Inl e
         | Inr speed_bps \<Rightarrow>
             (let segments = (case total_segments st of None \<Rightarrow> 0 | Some t \<Rightarrow> t);
                  received_count = int (card (received_segments st))
              in case (if segments > 0
                       then py_truediv (100 * real_of_int received_count) (real_of_int segments)
                       else Inr 0) of
                   Inl e \<Rightarrow> Inl e
                 | Inr success_percentage \<Rightarrow>
                     Inr (duration, speed_bps, total_bytes_received st, success_percentage)))"

text \<open>
  What the network does for a UDP worker: creating the socket raises \<open>OSError\<close>, or \<open>sendto\<close> of the
  request raises, or the request is sent and \<open>recvfrom\<close> sees the given events. Creating
  the socket (line 64) and packing the request (line 69) stand outside every \<^verbatim>\<open>try\<close>.
\<close>

datatype udp_conn = SocketRaises | SendtoRaises py_error | Listening "recv_result list"

definition udp_download_worker ::
  "udp_conn \<Rightarrow> int \<Rightarrow> real \<Rightarrow> real \<Rightarrow> (real \<times> real \<times> int \<times> real) worker_run" where
  "udp_download_worker conn file_size start_time end_time =
     (case conn of
        SocketRaises \<Rightarrow> \<lparr>slot_writes = [], thread_end = Died OSError\<rparr>
      | SendtoRaises e \<Rightarrow>
          (case struct_pack [FmtI, FmtB, FmtQ] [MAGIC_COOKIE, MSG_TYPE_REQUEST, file_size] of
             Inl e' \<Rightarrow> \<lparr>slot_writes = [], thread_end = Died e'\<rparr>
           | Inr request_packet \<Rightarrow> \<lparr>slot_writes = [(0, 0, 0, 0)], thread_end = Returned\<rparr>)
      | Listening events \<Rightarrow>
          (case struct_pack [FmtI, FmtB, FmtQ] [MAGIC_COOKIE, MSG_TYPE_REQUEST, file_size] of
             Inl e' \<Rightarrow> \<lparr>slot_writes = [], thread_end = Died e'\<rparr>
           | Inr request_packet \<Rightarrow>
               (case udp_result (udp_recv_loop udp_initial events) start_time end_time of
                  Inl e' \<Rightarrow> \<lparr>slot_writes = [], thread_end = Died e'\<rparr>
                | Inr r \<Rightarrow> \<lparr>slot_writes = [r], thread_end = Returned\<rparr>)))"

section \<open>The request line a TCP worker sends\<close>

text \<open>
  client.py, lines 38 and 39: \<open>(str(file_size) + "\n").encode()\<close>. \<open>str\<close> of an integer is
  its decimal digits, after a minus sign when it is negative.
\<close>

fun decimal_digits :: "nat \<Rightarrow> nat list" where
  "decimal_digits n = (if n < 10 then [48 + n] else decimal_digits (n div 10) @ [48 + n mod 10])"

declare decimal_digits.simps [simp del]

definition py_str :: "int \<Rightarrow> nat list" where
  "py_str n = (if n < 0 then 45 # decimal_digits (nat (- n)) else decimal_digits (nat n))"

definition request_bytes :: "int \<Rightarrow> byte list" where
  "request_bytes file_size = map of_nat (py_str file_size @ [10])"

section \<open>The discovery listener\<close>

text \<open>
  client.py, \<open>main\<close>, lines 132 to 147. Each event is what \<open>recvfrom\<close> did and the sender's
  address. A timeout and a skipped datagram both go round the loop; any other exception
  leaves it. The loop has no exit but a valid offer: \<open>None\<close> is a listener still waiting
  after all the events given.
\<close>

fun discover :: "(recv_result \<times> string) list \<Rightarrow> (py_error + string \<times> int \<times> int) option" where
  "discover [] = None"
| "discover ((RecvRaises e, addr) # rest) =
     (if e = SocketTimeout then discover rest else Some (Inl e))"
| "discover ((Recv data, addr) # rest) =
     (case decode_offer data of
        Inl e \<Rightarrow> Some (Inl e)
      | Inr None \<Rightarrow> discover rest
      | Inr (Some (server_udp_port, server_tcp_port)) \<Rightarrow>
          Some (Inr (addr, server_udp_port, server_tcp_port)))"

section \<open>The offer broadcaster\<close>

text \<open>
  server.py, \<open>broadcast_offers\<close>, lines 132 to 141. \<open>stop_set k\<close> is what
  \<open>stop_event.is_set()\<close> answers at the \<open>k\<close>-th test of the loop condition (counted from
  zero) and \<open>sendto_ok k\<close> whether the \<open>sendto\<close> of that iteration returns or raises. The
  loop may run forever, so it runs on fuel: one unit per test of the condition, and
  \<open>StillRunning\<close> when none is left. \<open>struct.pack\<close> stands outside the \<^verbatim>\<open>try\<close>.
\<close>

datatype bcast_event = OfferSent "byte list" | ErrorLogged | Slept | SocketClosed

datatype bcast_end = StillRunning | Stopped | Crashed py_error

fun broadcast_loop ::
  "(nat \<Rightarrow> bool) \<Rightarrow> (nat \<Rightarrow> bool) \<Rightarrow> int \<Rightarrow> int \<Rightarrow> nat \<Rightarrow> nat \<Rightarrow> bcast_event list \<times> bcast_end" where
  "broadcast_loop stop_set sendto_ok udp_port tcp_port k 0 = ([], StillRunning)"
| "broadcast_loop stop_set sendto_ok udp_port tcp_port k (Suc fuel) =
     (if stop_set k then ([SocketClosed], Stopped)
      else case offer_packet udp_port tcp_port of
        Inl e \<Rightarrow> ([], Crashed e)
      | Inr offer \<Rightarrow>
          (let (events, ended) = broadcast_loop stop_set sendto_ok udp_port tcp_port (Suc k) fuel
           in ((if sendto_ok k then OfferSent offer else ErrorLogged) # Slept # events, ended)))"

definition broadcast_offers ::
  "(nat \<Rightarrow> bool) \<Rightarrow> (nat \<Rightarrow> bool) \<Rightarrow> int \<Rightarrow> int \<Rightarrow> nat \<Rightarrow> bcast_event list \<times> bcast_end" where
  "broadcast_offers stop_set sendto_ok udp_port tcp_port fuel =
     broadcast_loop stop_set sendto_ok udp_port tcp_port 0 fuel"

section \<open>The dispatcher's UDP half\<close>

text \<open>
  server.py, \<open>main\<close>, lines 176 to 189, one pass: \<open>Inr None\<close> when nothing is spawned (a
  timeout, or a datagram skipped by \<open>continue\<close>), \<open>Inr (Some (addr, file_size))\<close> when a
  responder thread is started for that client and size, \<open>Inl e\<close> when an exception other
  than the timeout leaves the loop.
\<close>

fun dispatch_udp :: "recv_result \<times> string \<Rightarrow> py_error + (string \<times> int) option" where
  "dispatch_udp (RecvRaises e, addr) = (if e = SocketTimeout then Inr None else Inl e)"
| "dispatch_udp (Recv data, addr) =
     (case decode_request data of
        Inl e \<Rightarrow> Inl e
      | Inr None \<Rightarrow> Inr None
      | Inr (Some file_size) \<Rightarrow> Inr (Some (addr, file_size)))"

section \<open>Reference values for the statements\<close>

text \<open>
  The datagram of segment \<open>i\<close> out of \<open>t\<close>, as section 6 of the specification lays it out:
  magic, type 0x4, the two 64-bit counters, then \<open>min chunk (file_size - i * chunk)\<close> bytes.
\<close>

definition segment_packet :: "int \<Rightarrow> int \<Rightarrow> int \<Rightarrow> int \<Rightarrow> byte list" where
  "segment_packet chunk file_size t i =
     be_bytes 4 MAGIC_COOKIE @ be_bytes 1 MSG_TYPE_PAYLOAD @ be_bytes 8 t @ be_bytes 8 i
       @ replicate (nat (min chunk (file_size - i * chunk))) 0x42"

text \<open>
  The number of loop bodies the broadcaster runs when the loop condition is tested \<open>fuel\<close>
  times from test \<open>k\<close> on: the tests before the first one that finds the event set.
\<close>

definition ticks_before_stop :: "(nat \<Rightarrow> bool) \<Rightarrow> nat \<Rightarrow> nat \<Rightarrow> nat" where
  "ticks_before_stop stop_set k fuel = length (takeWhile (\<lambda>j. \<not> stop_set j) [k..<k + fuel])"

text \<open>What one loop body leaves in the trace: the offer or the logged error, then the sleep.\<close>

definition tick_events :: "(nat \<Rightarrow> bool) \<Rightarrow> byte list \<Rightarrow> nat \<Rightarrow> bcast_event list" where
  "tick_events sendto_ok offer j = [if sendto_ok j then OfferSent offer else ErrorLogged, Slept]"

text \<open>
  The payload segments a UDP worker accepts, in the order received: the datagrams that
  pass the length, magic and type checks, up to the event that ends the loop.
\<close>

fun accepted_payloads :: "recv_result list \<Rightarrow> (int \<times> int \<times> byte list) list" where
  "accepted_payloads [] = []"
| "accepted_payloads (RecvRaises e # rest) = []"
| "accepted_payloads (Recv data # rest) =
     (case decode_payload data of
        Inr (Some p) \<Rightarrow> p # accepted_payloads rest
      | _ \<Rightarrow> accepted_payloads rest)"

text \<open>
  The specification's delivery ratio: distinct indices received over the total announced
  by the first segment seen, 0 when none was seen.
\<close>

definition delivery_ratio :: "(int \<times> int \<times> byte list) list \<Rightarrow> real" where
  "delivery_ratio ps =
     (case ps of
        [] \<Rightarrow> 0
      | (t, i, payload) # rest \<Rightarrow>
          real (card (set (map (\<lambda>(t, i, payload). i) ps))) / real_of_int t)"

text \<open>
  A runtime to evaluate the model on ASCII requests: CPython's default limit of 4300
  digits, and no decimal digit beyond ASCII. On ASCII text the digit table is not consulted,
  so every runtime with this limit agrees with it there.
\<close>

definition cpython_ascii :: py_runtime where
  "cpython_ascii = \<lparr>todecimal = (\<lambda>c. None), int_max_str_digits = 4300\<rparr>"

text \<open>
  The request line of a buffer, as the specification reads it: the bytes before the first
  newline; the bytes that follow that newline; and a non-negative ASCII decimal integer:
  one digit or more, nothing else.
\<close>

definition request_line :: "byte list \<Rightarrow> byte list" where
  "request_line data = takeWhile (\<lambda>b. b \<noteq> 0x0A) data"

definition bytes_after_newline :: "byte list \<Rightarrow> byte list" where
  "bytes_after_newline data = drop 1 (dropWhile (\<lambda>b. b \<noteq> 0x0A) data)"

definition ascii_decimal :: "byte list \<Rightarrow> bool" where
  "ascii_decimal bs = (bs \<noteq> [] \<and> list_all (\<lambda>b. 0x30 \<le> b \<and> b \<le> 0x39) bs)"

text \<open>
  The characters an integer literal of \<open>int\<close> is made of: a decimal digit (of ASCII or,
  beyond it, of the runtime's table), a sign, an underscore.
\<close>

definition numeric_char :: "py_runtime \<Rightarrow> nat \<Rightarrow> bool" where
  "numeric_char R c = (ascii_digit (to_ascii R c) \<or> c = 43 \<or> c = 45 \<or> c = 95)"

section \<open>Facts about the codec\<close>

lemma length_be_bytes: "length (be_bytes n v) = n"
  by (induction n) simp_all

lemma be_int_be_bytes_mod: "be_int (be_bytes n v) = v mod 256 ^ n"
proof (induction n)
  case 0
  show ?case by simp
next
  case (Suc n)
  have "uint (word_of_int (v div 256 ^ n) :: byte) = v div 256 ^ n mod 256"
    by (simp add: uint_word_of_int)
  then have "be_int (be_bytes (Suc n) v) = (v div 256 ^ n mod 256) * 256 ^ n + v mod 256 ^ n"
    using Suc by (simp add: length_be_bytes)
  also have "\<dots> = v mod (256 ^ n * 256)"
    using zmod_zmult2_eq [of 256 v "256 ^ n"] by (simp add: mult.commute)
  also have "\<dots> = v mod 256 ^ Suc n"
    by (simp add: mult.commute)
  finally show ?case .
qed

lemma be_int_be_bytes: "0 \<le> v \<Longrightarrow> v < 256 ^ n \<Longrightarrow> be_int (be_bytes n v) = v"
  by (simp add: be_int_be_bytes_mod)

section \<open>The offer round trip\<close>

lemma offer_packet_eq:
  assumes "0 \<le> u" "u < 65536" "0 \<le> t" "t < 65536"
  shows "offer_packet u t =
     Inr (be_bytes 4 MAGIC_COOKIE @ be_bytes 1 MSG_TYPE_OFFER @ be_bytes 2 u @ be_bytes 2 t)"
  using assms by (simp add: offer_packet_def pack_field_def MAGIC_COOKIE_def MSG_TYPE_OFFER_def)

lemma decode_offer_fields:
  assumes "length m = 4" "length ty = 1" "length a = 2" "length b = 2"
  shows "decode_offer (m @ ty @ a @ b) =
     (if be_int m = MAGIC_COOKIE \<and> be_int ty = MSG_TYPE_OFFER then Inr (Some (be_int a, be_int b)) else Inr None)"
  using assms by (simp add: decode_offer_def unpack_from_def calcsize_def)

text \<open>
  Claim C7. For every pair of 16-bit port numbers, the offer the broadcaster packs (nine
  bytes: the magic cookie, the type 0x2, the UDP port, the TCP port, big-endian) is accepted
  by the discovery listener's decoding, which returns the same UDP port and TCP port, in
  that order.
\<close>

theorem offer_roundtrip:
  assumes "0 \<le> udp_port" "udp_port < 65536" "0 \<le> tcp_port" "tcp_port < 65536"
  shows "case offer_packet udp_port tcp_port of
           Inl e \<Rightarrow> False
         | Inr pkt \<Rightarrow> length pkt = 9 \<and> take 5 pkt = [0xAB, 0xCD, 0xDC, 0xBA, 0x02]
              \<and> decode_offer pkt = Inr (Some (udp_port, tcp_port))
              \<and> discover ((Recv pkt, addr) # rest) = Some (Inr (addr, udp_port, tcp_port))"
proof -
  let ?pkt = "be_bytes 4 MAGIC_COOKIE @ be_bytes 1 MSG_TYPE_OFFER @ be_bytes 2 udp_port @ be_bytes 2 tcp_port"
  have "decode_offer ?pkt =
     (if be_int (be_bytes 4 MAGIC_COOKIE) = MAGIC_COOKIE \<and> be_int (be_bytes 1 MSG_TYPE_OFFER) = MSG_TYPE_OFFER
      then Inr (Some (be_int (be_bytes 2 udp_port), be_int (be_bytes 2 tcp_port))) else Inr None)"
    by (rule decode_offer_fields) (simp_all only: length_be_bytes)
  moreover have "be_int (be_bytes 4 MAGIC_COOKIE) = MAGIC_COOKIE"
    by (rule be_int_be_bytes) (simp_all add: MAGIC_COOKIE_def)
  moreover have "be_int (be_bytes 1 MSG_TYPE_OFFER) = MSG_TYPE_OFFER"
    by (rule be_int_be_bytes) (simp_all add: MSG_TYPE_OFFER_def)
  moreover have "be_int (be_bytes 2 udp_port) = udp_port" "be_int (be_bytes 2 tcp_port) = tcp_port"
    using assms by (simp_all add: be_int_be_bytes)
  ultimately have dec: "decode_offer ?pkt = Inr (Some (udp_port, tcp_port))"
    by (simp only: simp_thms if_True)
  have "be_bytes 4 MAGIC_COOKIE @ be_bytes 1 MSG_TYPE_OFFER = [0xAB, 0xCD, 0xDC, 0xBA, 0x02]"
    by code_simp
  moreover have "take 5 ?pkt = be_bytes 4 MAGIC_COOKIE @ be_bytes 1 MSG_TYPE_OFFER"
    by (simp add: length_be_bytes)
  ultimately have hd5: "take 5 ?pkt = [0xAB, 0xCD, 0xDC, 0xBA, 0x02]"
    by (simp only:)
  have len: "length ?pkt = 9"
    by (simp add: length_be_bytes)
  have "discover ((Recv ?pkt, addr) # rest) = Some (Inr (addr, udp_port, tcp_port))"
    by (simp only: discover.simps dec sum.case option.case prod.case)
  then show ?thesis
    using assms dec hd5 len by (simp only: offer_packet_eq sum.case)
qed

theorem offer_roundtrip_witness:
  "offer_packet 2025 2026 = Inr [0xAB, 0xCD, 0xDC, 0xBA, 0x02, 0x07, 0xE9, 0x07, 0xEA]
   \<and> decode_offer [0xAB, 0xCD, 0xDC, 0xBA, 0x02, 0x07, 0xE9, 0x07, 0xEA] = Inr (Some (2025, 2026))
   \<and> discover [(RecvRaises SocketTimeout, []),
                 (Recv [0xAB, 0xCD, 0xDC, 0xBA, 0x02, 0x07, 0xE9, 0x07, 0xEA], ''10.0.0.7'')]
       = Some (Inr (''10.0.0.7'', 2025, 2026))"
proof -
  have pkt: "offer_packet 2025 2026 = Inr [0xAB, 0xCD, 0xDC, 0xBA, 0x02, 0x07, 0xE9, 0x07, 0xEA]"
    by code_simp
  show ?thesis
    using offer_roundtrip [of 2025 2026 "''10.0.0.7''" "[]"] by (simp add: pkt)
qed

section \<open>Decoding is total\<close>

lemma decode_offer_total:
  "decode_offer data =
     (if 9 \<le> length data \<and> magic_of data = MAGIC_COOKIE \<and> type_of data = MSG_TYPE_OFFER
      then Inr (Some (be_int (take 2 (drop 5 data)), be_int (take 2 (drop 7 data))))
      else Inr None)"
  by (simp add: decode_offer_def unpack_from_def calcsize_def magic_of_def type_of_def)

lemma decode_request_total:
  "decode_request data =
     (if 13 \<le> length data \<and> magic_of data = MAGIC_COOKIE \<and> type_of data = MSG_TYPE_REQUEST
      then Inr (Some (be_int (take 8 (drop 5 data))))
      else Inr None)"
  by (simp add: decode_request_def unpack_from_def calcsize_def magic_of_def type_of_def)

lemma decode_payload_total:
  "decode_payload data =
     (if 21 \<le> length data \<and> magic_of data = MAGIC_COOKIE \<and> type_of data = MSG_TYPE_PAYLOAD
      then Inr (Some (be_int (take 8 (drop 5 data)), be_int (take 8 (drop 13 data)), drop 21 data))
      else Inr None)"
  by (simp add: decode_payload_def unpack_from_def calcsize_def magic_of_def type_of_def)

text \<open>
  Claim C4. For every received byte buffer, whatever its length, none of the three decoding
  sites raises: \<open>struct.unpack_from\<close> is never called on a buffer too short for it. A buffer
  shorter than the minimum length of the expected message (9, 13, 21 bytes), or whose magic
  is not 0xABCDDCBA, or whose type byte is not the expected one, is skipped, and the receive
  loop goes on with the next datagram in the state it had.
\<close>

theorem decoding_defensive:
  "\<not> isl (decode_offer data) \<and> \<not> isl (decode_request data) \<and> \<not> isl (decode_payload data)
   \<and> (length data < 9 \<or> magic_of data \<noteq> MAGIC_COOKIE \<or> type_of data \<noteq> MSG_TYPE_OFFER
        \<longrightarrow> decode_offer data = Inr None \<and> discover ((Recv data, addr) # rest) = discover rest)
   \<and> (length data < 13 \<or> magic_of data \<noteq> MAGIC_COOKIE \<or> type_of data \<noteq> MSG_TYPE_REQUEST
        \<longrightarrow> decode_request data = Inr None \<and> dispatch_udp (Recv data, addr) = Inr None)
   \<and> (length data < 21 \<or> magic_of data \<noteq> MAGIC_COOKIE \<or> type_of data \<noteq> MSG_TYPE_PAYLOAD
        \<longrightarrow> decode_payload data = Inr None
            \<and> udp_recv_loop st (Recv data # events) = udp_recv_loop st events)"
  by (auto simp: decode_offer_total decode_request_total decode_payload_total)

theorem decoding_defensive_witness:
  "decode_payload [0xAB, 0xCD] = Inr None
   \<and> udp_recv_loop udp_initial [Recv [0xAB, 0xCD]] = udp_initial
   \<and> decode_request [0xAB, 0xCD, 0xDC, 0xBB, 0x03, 0, 0, 0, 0, 0, 0, 0, 5] = Inr None
   \<and> dispatch_udp (Recv [0xAB, 0xCD, 0xDC, 0xBB, 0x03, 0, 0, 0, 0, 0, 0, 0, 5], ''10.0.0.7'') = Inr None
   \<and> decode_offer [0xAB, 0xCD, 0xDC, 0xBA, 0x07, 0x07, 0xE9, 0x07, 0xEA] = Inr None
   \<and> discover [(Recv [0xAB, 0xCD, 0xDC, 0xBA, 0x07, 0x07, 0xE9, 0x07, 0xEA], ''10.0.0.7'')] = None"
proof -
  have m: "magic_of [0xAB, 0xCD, 0xDC, 0xBB, 0x03, 0, 0, 0, 0, 0, 0, 0, 5] \<noteq> MAGIC_COOKIE"
    by (simp add: magic_of_def MAGIC_COOKIE_def)
  have t: "type_of [0xAB, 0xCD, 0xDC, 0xBA, 0x07, 0x07, 0xE9, 0x07, 0xEA] \<noteq> MSG_TYPE_OFFER"
    by (simp add: type_of_def MSG_TYPE_OFFER_def)
  show ?thesis
    using decoding_defensive [of "[0xAB, 0xCD]" "[]" "[]" udp_initial "[]"]
      decoding_defensive [of "[0xAB, 0xCD, 0xDC, 0xBB, 0x03, 0, 0, 0, 0, 0, 0, 0, 5]" "''10.0.0.7''"] m
      decoding_defensive [of "[0xAB, 0xCD, 0xDC, 0xBA, 0x07, 0x07, 0xE9, 0x07, 0xEA]" "''10.0.0.7''" "[]"] t
    by simp
qed

section \<open>The segments of a UDP transfer\<close>

lemma ceil_div:
  assumes "0 < (c::int)"
  shows "(n + c - 1) div c = \<lceil>real_of_int n / real_of_int c\<rceil>"
proof -
  let ?q = "(n + c - 1) div c"
  have m: "(n + c - 1) mod c < c" "0 \<le> (n + c - 1) mod c"
    using assms by simp_all
  have e: "?q * c + (n + c - 1) mod c = n + c - 1"
    by simp
  have up: "n \<le> ?q * c"
    using m e by linarith
  have lo: "(?q - 1) * c < n"
  proof -
    have "(?q - 1) * c = ?q * c - c" by (simp add: algebra_simps)
    then show ?thesis using m e by linarith
  qed
  have "real_of_int n / real_of_int c \<le> real_of_int ?q"
    using up assms by (simp add: pos_divide_le_eq flip: of_int_mult)
  moreover have "real_of_int ?q - 1 < real_of_int n / real_of_int c"
  proof -
    have "real_of_int ((?q - 1) * c) < real_of_int n"
      using lo by linarith
    then show ?thesis
      using assms by (simp add: pos_less_divide_eq)
  qed
  ultimately show ?thesis
    by (simp add: ceiling_unique)
qed

lemma last_segment_nonempty:
  assumes "0 < (c::int)" "i < (n + c - 1) div c"
  shows "i * c < n"
proof -
  let ?q = "(n + c - 1) div c"
  have m: "0 \<le> (n + c - 1) mod c"
    using assms by simp
  have e: "?q * c + (n + c - 1) mod c = n + c - 1"
    by simp
  have "i + 1 \<le> ?q" using assms by simp
  then have "(i + 1) * c \<le> ?q * c"
    using assms(1) by (simp only: mult_right_mono)
  then have "i * c + c \<le> ?q * c" by (simp add: algebra_simps)
  then show ?thesis using m e by linarith
qed

lemma payload_header_eq:
  assumes "0 \<le> t" "t < 2 ^ 64" "0 \<le> i" "i < 2 ^ 64"
  shows "struct_pack [FmtI, FmtB, FmtQ, FmtQ] [MAGIC_COOKIE, MSG_TYPE_PAYLOAD, t, i] =
     Inr (be_bytes 4 MAGIC_COOKIE @ be_bytes 1 MSG_TYPE_PAYLOAD @ be_bytes 8 t @ be_bytes 8 i)"
  using assms by (simp add: pack_field_def MAGIC_COOKIE_def MSG_TYPE_PAYLOAD_def)

lemma decode_payload_fields:
  assumes "length m = 4" "length ty = 1" "length a = 8" "length b = 8"
  shows "decode_payload (m @ ty @ a @ b @ payload) =
     (if be_int m = MAGIC_COOKIE \<and> be_int ty = MSG_TYPE_PAYLOAD
      then Inr (Some (be_int a, be_int b, payload)) else Inr None)"
  using assms by (simp add: decode_payload_total magic_of_def type_of_def)

lemma decode_segment_packet:
  assumes "0 \<le> t" "t < 2 ^ 64" "0 \<le> i" "i < 2 ^ 64"
  shows "decode_payload (segment_packet chunk file_size t i) =
     Inr (Some (t, i, replicate (nat (min chunk (file_size - i * chunk))) 0x42))"
proof -
  have "be_int (be_bytes 4 MAGIC_COOKIE) = MAGIC_COOKIE"
    by (rule be_int_be_bytes) (simp_all add: MAGIC_COOKIE_def)
  moreover have "be_int (be_bytes 1 MSG_TYPE_PAYLOAD) = MSG_TYPE_PAYLOAD"
    by (rule be_int_be_bytes) (simp_all add: MSG_TYPE_PAYLOAD_def)
  moreover have "be_int (be_bytes 8 t) = t" "be_int (be_bytes 8 i) = i"
    using assms by (simp_all add: be_int_be_bytes)
  moreover have "decode_payload (segment_packet chunk file_size t i) =
     (if be_int (be_bytes 4 MAGIC_COOKIE) = MAGIC_COOKIE \<and> be_int (be_bytes 1 MSG_TYPE_PAYLOAD) = MSG_TYPE_PAYLOAD
      then Inr (Some (be_int (be_bytes 8 t), be_int (be_bytes 8 i), replicate (nat (min chunk (file_size - i * chunk))) 0x42)) else Inr None)"
    unfolding segment_packet_def
    by (rule decode_payload_fields) (simp_all only: length_be_bytes)
  ultimately show ?thesis by (simp only: simp_thms if_True)
qed

lemma send_segments_all:
  assumes "0 < chunk" "0 \<le> t" "t < 2 ^ 64"
    and "\<forall>i \<in> set idxs. 0 \<le> i \<and> i < 2 ^ 64 \<and> i * chunk < file_size"
  shows "send_segments chunk sendto_ok file_size t idxs =
     (map (segment_packet chunk file_size t) (takeWhile sendto_ok idxs), None)"
  using assms(4)
proof (induction idxs)
  case Nil
  show ?case by simp
next
  case (Cons i idxs)
  then have i: "0 \<le> i" "i < 2 ^ 64" "i * chunk < file_size"
    by simp_all
  have slice: "py_slice_to (bytes_times 0x42 chunk) (min chunk (file_size - i * chunk))
      = replicate (nat (min chunk (file_size - i * chunk))) 0x42"
    using i assms(1) by (simp add: py_slice_to_def bytes_times_def min_def)
  have "send_segments chunk sendto_ok file_size t idxs =
      (map (segment_packet chunk file_size t) (takeWhile sendto_ok idxs), None)"
    using Cons by simp
  then show ?case
    using assms(2,3) i
    by (simp add: payload_header_eq slice segment_packet_def Let_def del: struct_pack.simps)
qed

text \<open>
  Claim C1. For every requested \<open>file_size\<close> (a 64-bit unsigned value, so at least 0) and
  every segment size above 0, the responder computes
  \<open>total_segments = ceil(file_size / segment_size)\<close> and hands the socket one datagram for
  each segment index from 0 on, in order, until a \<open>sendto\<close> raises: when none does, exactly
  one for each index from 0 to \<open>total_segments - 1\<close>. The datagram of index \<open>k\<close> decodes to
  \<open>total_segments\<close>, \<open>k\<close> and a payload of \<open>min(segment_size, file_size - k * segment_size)\<close>
  bytes. For 2500 bytes in segments of 1024 there are 3 segments and the last payload has
  452 bytes.
\<close>

theorem udp_responder_segments:
  assumes "0 < chunk" "0 \<le> file_size" "file_size < 2 ^ 64"
  shows "\<exists>pkts. handle_udp_request_with chunk sendto_ok file_size = (pkts, None)
     \<and> pkts = map (segment_packet chunk file_size \<lceil>real_of_int file_size / real_of_int chunk\<rceil>)
                (takeWhile sendto_ok (py_range \<lceil>real_of_int file_size / real_of_int chunk\<rceil>))
     \<and> ((\<forall>i. sendto_ok i) \<longrightarrow> int (length pkts) = \<lceil>real_of_int file_size / real_of_int chunk\<rceil>)
     \<and> (\<forall>k < length pkts. \<exists>payload.
           decode_payload (pkts ! k) =
             Inr (Some (\<lceil>real_of_int file_size / real_of_int chunk\<rceil>, int k, payload))
           \<and> int (length payload) = min chunk (file_size - int k * chunk))"
proof -
  define t where "t = (file_size + chunk - 1) div chunk"
  have t_ceil: "t = \<lceil>real_of_int file_size / real_of_int chunk\<rceil>"
    unfolding t_def using assms(1) by (rule ceil_div)
  have t0: "0 \<le> t"
    unfolding t_def using assms(1,2) by (simp add: pos_imp_zdiv_nonneg_iff)
  have t_le: "t \<le> file_size"
  proof (cases "file_size = 0")
    case True
    then show ?thesis unfolding t_def using assms(1) by simp
  next
    case False
    then have "1 \<le> file_size" using assms(2) by simp
    have "(file_size + chunk - 1) div chunk \<le> (file_size * chunk) div chunk"
    proof (rule zdiv_mono1)
      have "(file_size - 1) * (chunk - 1) \<ge> 0"
        using \<open>1 \<le> file_size\<close> assms(1) by simp
      then show "file_size + chunk - 1 \<le> file_size * chunk"
        by (simp add: algebra_simps)
    qed (use assms(1) in simp)
    then show ?thesis unfolding t_def using assms(1) by simp
  qed
  then have t64: "t < 2 ^ 64" using assms(3) by simp
  have idx: "\<forall>i \<in> set (py_range t). 0 \<le> i \<and> i < 2 ^ 64 \<and> i * chunk < file_size"
  proof
    fix i assume "i \<in> set (py_range t)"
    then have "0 \<le> i" "i < t" by (auto simp: py_range_def)
    moreover from \<open>i < t\<close> have "i * chunk < file_size"
      unfolding t_def using assms(1) by (simp add: last_segment_nonempty)
    ultimately show "0 \<le> i \<and> i < 2 ^ 64 \<and> i * chunk < file_size"
      using t64 by simp
  qed
  let ?sent = "takeWhile sendto_ok (py_range t)"
  let ?pkts = "map (segment_packet chunk file_size t) ?sent"
  have run: "handle_udp_request_with chunk sendto_ok file_size = (?pkts, None)"
    using assms(1) send_segments_all [OF assms(1) t0 t64 idx]
    by (simp add: handle_udp_request_with_def t_def Let_def)
  have all_ok: "int (length ?pkts) = t" if "\<forall>i. sendto_ok i"
  proof -
    have "\<forall>x \<in> set (py_range t). sendto_ok x" using that by simp
    then have "?sent = py_range t" by (simp only: takeWhile_eq_all_conv)
    then have "length ?pkts = length (py_range t)" by (simp only: length_map)
    then show ?thesis using t0 by (simp add: py_range_def)
  qed
  have segs: "\<exists>payload. decode_payload (?pkts ! k) = Inr (Some (t, int k, payload))
       \<and> int (length payload) = min chunk (file_size - int k * chunk)" if k: "k < length ?pkts" for k
  proof -
    have kk: "k < length ?sent" using k by simp
    also have "length ?sent \<le> length (py_range t)"
      by (rule length_takeWhile_le)
    finally have kt': "k < nat t" by (simp add: py_range_def)
    then have kt: "int k < t" by simp
    have "?sent ! k = py_range t ! k"
      using kk by (rule takeWhile_nth)
    also have "\<dots> = int k" using kt' by (simp add: py_range_def)
    finally have nth: "?pkts ! k = segment_packet chunk file_size t (int k)"
      using kk by simp
    have pos: "int k * chunk < file_size"
      using kt unfolding t_def using assms(1) by (simp add: last_segment_nonempty)
    have "decode_payload (?pkts ! k) =
        Inr (Some (t, int k, replicate (nat (min chunk (file_size - int k * chunk))) 0x42))"
      unfolding nth using t0 t64 kt by (intro decode_segment_packet) simp_all
    moreover have "int (length (replicate (nat (min chunk (file_size - int k * chunk))) (0x42::byte)))
        = min chunk (file_size - int k * chunk)"
      using pos assms(1) by simp
    ultimately show ?thesis by blast
  qed
  show ?thesis
    using run all_ok segs unfolding t_ceil by blast
qed

theorem udp_responder_segments_witness:
  "\<exists>pkts. handle_udp_request (\<lambda>i. True) 2500 = (pkts, None) \<and> length pkts = 3
     \<and> (\<exists>payload. decode_payload (pkts ! 2) = Inr (Some (3, 2, payload)) \<and> length payload = 452)"
proof -
  have c: "\<lceil>real_of_int 2500 / real_of_int 1024\<rceil> = 3"
    by (simp add: ceiling_eq_iff)
  obtain pkts where p: "handle_udp_request_with 1024 (\<lambda>i. True) 2500 = (pkts, None)"
      "int (length pkts) = 3"
      "\<forall>k < length pkts. \<exists>payload. decode_payload (pkts ! k) = Inr (Some (3, int k, payload))
           \<and> int (length payload) = min 1024 (2500 - int k * 1024)"
    using udp_responder_segments [of 1024 2500 "\<lambda>i. True"] unfolding c by auto
  from p(2) have l: "length pkts = 3" by simp
  have "2 < length pkts" using l by simp
  with p(3) have "\<exists>payload. decode_payload (pkts ! 2) = Inr (Some (3, int 2, payload))
           \<and> int (length payload) = min 1024 (2500 - int 2 * 1024)"
    by blast
  then have "\<exists>payload. decode_payload (pkts ! 2) = Inr (Some (3, 2, payload)) \<and> length payload = 452"
    by auto
  with p(1) l show ?thesis
    by (auto simp: handle_udp_request_def CHUNK_SIZE_def)
qed

section \<open>The broadcaster's loop\<close>

lemma upt_shift: "[k..<k + Suc n] = k # [Suc k..<Suc k + n]"
  by (subst upt_rec) simp

lemma ticks_stop_now: "stop_set k \<Longrightarrow> ticks_before_stop stop_set k (Suc fuel) = 0"
  unfolding ticks_before_stop_def upt_shift by simp

lemma ticks_step:
  "\<not> stop_set k \<Longrightarrow>
     ticks_before_stop stop_set k (Suc fuel) = Suc (ticks_before_stop stop_set (Suc k) fuel)"
  unfolding ticks_before_stop_def upt_shift by simp

lemma takeWhile_shorter:
  "length (takeWhile P xs) < length xs \<longleftrightarrow> (\<exists>x \<in> set xs. \<not> P x)"
  by (induction xs) auto

lemma ticks_lt_iff:
  "ticks_before_stop stop_set k fuel < fuel \<longleftrightarrow> (\<exists>j. k \<le> j \<and> j < k + fuel \<and> stop_set j)"
  using takeWhile_shorter [of "\<lambda>j. \<not> stop_set j" "[k..<k + fuel]"]
  by (auto simp: ticks_before_stop_def)

lemma broadcast_loop_trace:
  assumes "offer_packet udp_port tcp_port = Inr offer"
  shows "broadcast_loop stop_set sendto_ok udp_port tcp_port k fuel =
     (concat (map (tick_events sendto_ok offer) [k..<k + ticks_before_stop stop_set k fuel])
        @ (if ticks_before_stop stop_set k fuel < fuel then [SocketClosed] else []),
      if ticks_before_stop stop_set k fuel < fuel then Stopped else StillRunning)"
proof (induction fuel arbitrary: k)
  case 0
  show ?case by (simp add: ticks_before_stop_def)
next
  case (Suc fuel)
  show ?case
  proof (cases "stop_set k")
    case True
    then show ?thesis by (simp add: ticks_stop_now)
  next
    case False
    let ?n = "ticks_before_stop stop_set (Suc k) fuel"
    have n: "ticks_before_stop stop_set k (Suc fuel) = Suc ?n"
      using False by (rule ticks_step)
    have upt: "[k..<k + Suc ?n] = k # [Suc k..<Suc k + ?n]"
      by (rule upt_shift)
    have "broadcast_loop stop_set sendto_ok udp_port tcp_port k (Suc fuel) =
       (tick_events sendto_ok offer k
          @ fst (broadcast_loop stop_set sendto_ok udp_port tcp_port (Suc k) fuel),
        snd (broadcast_loop stop_set sendto_ok udp_port tcp_port (Suc k) fuel))"
      using False assms by (simp add: tick_events_def split: prod.split)
    also have "\<dots> =
       (concat (map (tick_events sendto_ok offer) [k..<k + Suc ?n])
          @ (if Suc ?n < Suc fuel then [SocketClosed] else []),
        if Suc ?n < Suc fuel then Stopped else StillRunning)"
      unfolding Suc [of "Suc k"] upt by simp
    finally show ?thesis
      unfolding n .
  qed
qed

text \<open>
  Claim C8. With 16-bit ports, the broadcaster's loop never ends because of a send failure:
  the trace of a run is one loop body for each test of the condition that found the event
  clear, whatever \<open>sendto\<close> did; a body whose \<open>sendto\<close> raises logs the error, sleeps, and
  the loop goes on to the next test. The loop has stopped (and closed its socket) exactly
  when some test found the cancellation event set, and is still running otherwise.
\<close>

theorem broadcaster_survives_send_errors:
  assumes "0 \<le> udp_port" "udp_port < 65536" "0 \<le> tcp_port" "tcp_port < 65536"
  shows "\<exists>offer. offer_packet udp_port tcp_port = Inr offer
     \<and> broadcast_offers stop_set sendto_ok udp_port tcp_port fuel =
         (concat (map (tick_events sendto_ok offer) [0..<ticks_before_stop stop_set 0 fuel])
            @ (if ticks_before_stop stop_set 0 fuel < fuel then [SocketClosed] else []),
          if ticks_before_stop stop_set 0 fuel < fuel then Stopped else StillRunning)
     \<and> (snd (broadcast_offers stop_set sendto_ok udp_port tcp_port fuel) = Stopped
          \<longleftrightarrow> (\<exists>j < fuel. stop_set j))
     \<and> (snd (broadcast_offers stop_set sendto_ok udp_port tcp_port fuel) = StillRunning
          \<longleftrightarrow> (\<forall>j < fuel. \<not> stop_set j))"
proof -
  obtain offer where o: "offer_packet udp_port tcp_port = Inr offer"
    using assms by (simp add: offer_packet_eq)
  have run: "broadcast_offers stop_set sendto_ok udp_port tcp_port fuel =
         (concat (map (tick_events sendto_ok offer) [0..<ticks_before_stop stop_set 0 fuel])
            @ (if ticks_before_stop stop_set 0 fuel < fuel then [SocketClosed] else []),
          if ticks_before_stop stop_set 0 fuel < fuel then Stopped else StillRunning)"
    unfolding broadcast_offers_def using broadcast_loop_trace [OF o, of stop_set sendto_ok 0 fuel]
    by simp
  have "ticks_before_stop stop_set 0 fuel < fuel \<longleftrightarrow> (\<exists>j < fuel. stop_set j)"
    by (simp add: ticks_lt_iff)
  then show ?thesis
    using o run by auto
qed

theorem broadcaster_survives_send_errors_witness:
  "broadcast_offers (\<lambda>k. k = 2) (\<lambda>k. k \<noteq> 0) 2025 2026 5 =
     ([ErrorLogged, Slept,
       OfferSent [0xAB, 0xCD, 0xDC, 0xBA, 0x02, 0x07, 0xE9, 0x07, 0xEA], Slept,
       SocketClosed], Stopped)
   \<and> snd (broadcast_offers (\<lambda>k. False) (\<lambda>k. False) 2025 2026 3) = StillRunning"
proof -
  have pkt: "offer_packet 2025 2026 = Inr [0xAB, 0xCD, 0xDC, 0xBA, 0x02, 0x07, 0xE9, 0x07, 0xEA]"
    by code_simp
  have n: "ticks_before_stop (\<lambda>k. k = 2) 0 5 = 2" "ticks_before_stop (\<lambda>k. False) 0 3 = 3"
    by code_simp+
  show ?thesis
    using broadcaster_survives_send_errors [of 2025 2026 "\<lambda>k. k = 2" "\<lambda>k. k \<noteq> 0" 5]
      broadcaster_survives_send_errors [of 2025 2026 "\<lambda>k. False" "\<lambda>k. False" 3]
    by (simp add: pkt n tick_events_def upt_conv_Cons)
qed

section \<open>The UDP worker's bookkeeping\<close>

lemma decode_payload_not_error: "decode_payload data \<noteq> Inl e"
  by (simp add: decode_payload_total)

lemma udp_recv_loop_state:
  "udp_recv_loop st events =
     \<lparr>total_bytes_received =
        total_bytes_received st + (\<Sum>(t, i, payload) \<leftarrow> accepted_payloads events. int (length payload)),
      total_segments =
        (case total_segments st of
           Some t \<Rightarrow> Some t
         | None \<Rightarrow> (case accepted_payloads events of [] \<Rightarrow> None | (t, i, payload) # rest \<Rightarrow> Some t)),
      received_segments =
        received_segments st \<union> set (map (\<lambda>(t, i, payload). i) (accepted_payloads events))\<rparr>"
proof (induction events arbitrary: st)
  case Nil
  show ?case by (cases "total_segments st") simp_all
next
  case (Cons ev rest)
  show ?case
  proof (cases ev)
    case (RecvRaises e)
    then show ?thesis by (cases "total_segments st") simp_all
  next
    case (Recv data)
    show ?thesis
    proof (cases "decode_payload data")
      case (Inl e)
      then show ?thesis by (simp add: decode_payload_not_error)
    next
      case (Inr r)
      show ?thesis
      proof (cases r)
        case None
        then show ?thesis
          using Inr Recv Cons [of st] by (simp cong: option.case_cong)
      next
        case (Some p)
        obtain t i payload where p: "p = (t, i, payload)" by (cases p)
        let ?st = "\<lparr>total_bytes_received = total_bytes_received st + int (length payload),
             total_segments = (if total_segments st = None then Some t else total_segments st),
             received_segments = insert i (received_segments st)\<rparr>"
        have "udp_recv_loop st (ev # rest) = udp_recv_loop ?st rest"
          using Inr Recv Some p by simp
        moreover have "accepted_payloads (ev # rest) = (t, i, payload) # accepted_payloads rest"
          using Inr Recv Some p by simp
        ultimately show ?thesis
          using Cons [of ?st]
          by (cases "total_segments st") (simp_all add: algebra_simps)
      qed
    qed
  qed
qed


lemma request_packet_eq:
  assumes "0 \<le> file_size" "file_size < 2 ^ 64"
  shows "struct_pack [FmtI, FmtB, FmtQ] [MAGIC_COOKIE, MSG_TYPE_REQUEST, file_size] =
     Inr (be_bytes 4 MAGIC_COOKIE @ be_bytes 1 MSG_TYPE_REQUEST @ be_bytes 8 file_size)"
  using assms by (simp add: pack_field_def MAGIC_COOKIE_def MSG_TYPE_REQUEST_def)

lemma request_packet_error:
  assumes "file_size < 0 \<or> 2 ^ 64 \<le> file_size"
  shows "struct_pack [FmtI, FmtB, FmtQ] [MAGIC_COOKIE, MSG_TYPE_REQUEST, file_size] = Inl StructError"
  using assms by (auto simp: pack_field_def MAGIC_COOKIE_def MSG_TYPE_REQUEST_def)

lemma speed_bps_of_eq:
  "speed_bps_of n d = Inr (if d > 0 then real_of_int (n * 8) / d else 0)"
  by (simp add: speed_bps_of_def py_truediv_def)

lemma udp_result_eq:
  "udp_result st start_time end_time =
     Inr (end_time - start_time,
          (if end_time - start_time > 0
           then real_of_int (total_bytes_received st * 8) / (end_time - start_time) else 0),
          total_bytes_received st,
          (case total_segments st of
             None \<Rightarrow> 0
           | Some t \<Rightarrow> if t > 0 then 100 * real (card (received_segments st)) / real_of_int t else 0))"
  by (cases "total_segments st") (simp_all add: udp_result_def speed_bps_of_eq py_truediv_def Let_def)

text \<open>
  Claim C5, as amended. For every sequence of datagrams a UDP worker receives (and a file
  size a Request can carry), the worker takes \<open>total_segments\<close> from the first valid payload
  segment, collects the segment indices in a set, so that repeats count once, and writes
  one result whose last component is the percentage
  \<open>100 * |received_indices| / total_segments\<close>, or 0 when no segment was seen (or the first
  one announced no segments): a percentage, one hundred times the specification's ratio.
\<close>

theorem udp_worker_delivery:
  assumes "0 \<le> file_size" "file_size < 2 ^ 64"
  shows "total_segments (udp_recv_loop udp_initial events) =
       (case accepted_payloads events of [] \<Rightarrow> None | (t, i, payload) # rest \<Rightarrow> Some t)
     \<and> received_segments (udp_recv_loop udp_initial events) =
         set (map (\<lambda>(t, i, payload). i) (accepted_payloads events))
     \<and> (\<exists>speed_bps received.
          udp_download_worker (Listening events) file_size start_time end_time =
            \<lparr>slot_writes =
               [(end_time - start_time, speed_bps, received,
                 (case accepted_payloads events of
                    [] \<Rightarrow> 0
                  | (t, i, payload) # rest \<Rightarrow>
                      if t > 0
                      then 100 * real (card (set (map (\<lambda>(t, i, payload). i) (accepted_payloads events))))
                             / real_of_int t
                      else 0))],
             thread_end = Returned\<rparr>)"
proof -
  let ?st = "udp_recv_loop udp_initial events"
  have st: "total_segments ?st =
       (case accepted_payloads events of [] \<Rightarrow> None | (t, i, payload) # rest \<Rightarrow> Some t)"
    "received_segments ?st = set (map (\<lambda>(t, i, payload). i) (accepted_payloads events))"
    by (subst udp_recv_loop_state, simp add: udp_initial_def)+
  have pct: "(case total_segments ?st of
             None \<Rightarrow> 0
           | Some t \<Rightarrow> if t > 0 then 100 * real (card (received_segments ?st)) / real_of_int t else 0)
     = (case accepted_payloads events of
                    [] \<Rightarrow> 0
                  | (t, i, payload) # rest \<Rightarrow>
                      if t > 0
                      then 100 * real (card (set (map (\<lambda>(t, i, payload). i) (accepted_payloads events))))
                             / real_of_int t
                      else 0)"
    unfolding st by (cases "accepted_payloads events") auto
  have "udp_download_worker (Listening events) file_size start_time end_time =
      \<lparr>slot_writes = [(end_time - start_time,
          (if end_time - start_time > 0
           then real_of_int (total_bytes_received ?st * 8) / (end_time - start_time) else 0),
          total_bytes_received ?st,
          (case total_segments ?st of
             None \<Rightarrow> 0
           | Some t \<Rightarrow> if t > 0 then 100 * real (card (received_segments ?st)) / real_of_int t else 0))],
        thread_end = Returned\<rparr>"
    using assms by (simp add: udp_download_worker_def request_packet_eq udp_result_eq del: struct_pack.simps)
  then show ?thesis
    using st unfolding pct by blast
qed

theorem udp_worker_delivery_witness:
  "udp_download_worker
     (Listening
        [Recv [0xAB, 0xCD, 0xDC, 0xBA, 0x04, 0, 0, 0, 0, 0, 0, 0, 3, 0, 0, 0, 0, 0, 0, 0, 0, 0x42],
         Recv [0xAB, 0xCD, 0xDC, 0xBA, 0x04, 0, 0, 0, 0, 0, 0, 0, 3, 0, 0, 0, 0, 0, 0, 0, 0, 0x42],
         Recv [1, 2, 3],
         Recv [0xAB, 0xCD, 0xDC, 0xBA, 0x04, 0, 0, 0, 0, 0, 0, 0, 3, 0, 0, 0, 0, 0, 0, 0, 2, 0x42]])
     2500 0 2
   = \<lparr>slot_writes = [(2, 12, 3, 200 / 3)], thread_end = Returned\<rparr>
   \<and> udp_download_worker (Listening []) 0 0 2
   = \<lparr>slot_writes = [(2, 0, 0, 0)], thread_end = Returned\<rparr>"
proof -
  let ?evs = "[Recv [0xAB, 0xCD, 0xDC, 0xBA, 0x04, 0, 0, 0, 0, 0, 0, 0, 3, 0, 0, 0, 0, 0, 0, 0, 0, 0x42],
         Recv [0xAB, 0xCD, 0xDC, 0xBA, 0x04, 0, 0, 0, 0, 0, 0, 0, 3, 0, 0, 0, 0, 0, 0, 0, 0, 0x42],
         Recv [1, 2, 3],
         Recv [0xAB, 0xCD, 0xDC, 0xBA, 0x04, 0, 0, 0, 0, 0, 0, 0, 3, 0, 0, 0, 0, 0, 0, 0, 2, 0x42 :: byte]]"
  have a: "accepted_payloads ?evs = [(3, 0, [0x42]), (3, 0, [0x42]), (3, 2, [0x42])]"
    by code_simp
  have w: "udp_download_worker (Listening ?evs) 2500 0 2
      = \<lparr>slot_writes = [(2, 12, 3, 200 / 3)], thread_end = Returned\<rparr>"
    by code_simp
  have z: "udp_download_worker (Listening []) 0 0 2
      = \<lparr>slot_writes = [(2, 0, 0, 0)], thread_end = Returned\<rparr>"
    by code_simp
  show ?thesis
    using udp_worker_delivery [of 2500 ?evs 0 2] udp_worker_delivery [of 0 "[]" 0 2]
    by (simp add: a w z)
qed

text \<open>
  The claim as the specification words it fails: a worker that receives the only segment
  of a one-segment transfer reports 100, where the ratio
  \<open>|received_indices| / total_segments\<close> is 1.
\<close>

theorem udp_worker_reports_percentage_counterexample:
  "slot_writes
     (udp_download_worker
        (Listening
           [Recv [0xAB, 0xCD, 0xDC, 0xBA, 0x04, 0, 0, 0, 0, 0, 0, 0, 1, 0, 0, 0, 0, 0, 0, 0, 0, 0x42]])
        1 0 1)
   = [(1, 8, 1, 100)]
   \<and> delivery_ratio
       (accepted_payloads
          [Recv [0xAB, 0xCD, 0xDC, 0xBA, 0x04, 0, 0, 0, 0, 0, 0, 0, 1, 0, 0, 0, 0, 0, 0, 0, 0, 0x42]])
     = 1"
proof -
  have "accepted_payloads
          [Recv [0xAB, 0xCD, 0xDC, 0xBA, 0x04, 0, 0, 0, 0, 0, 0, 0, 1, 0, 0, 0, 0, 0, 0, 0, 0, 0x42]]
        = [(1, 0, [0x42])]"
    by code_simp
  then have "delivery_ratio
       (accepted_payloads
          [Recv [0xAB, 0xCD, 0xDC, 0xBA, 0x04, 0, 0, 0, 0, 0, 0, 0, 1, 0, 0, 0, 0, 0, 0, 0, 0, 0x42]])
     = 1"
    by (simp add: delivery_ratio_def)
  moreover have "slot_writes
     (udp_download_worker
        (Listening
           [Recv [0xAB, 0xCD, 0xDC, 0xBA, 0x04, 0, 0, 0, 0, 0, 0, 0, 1, 0, 0, 0, 0, 0, 0, 0, 0, 0x42]])
        1 0 1)
   = [(1, 8, 1, 100)]"
    by code_simp
  ultimately show ?thesis by simp
qed

section \<open>What the workers report\<close>

lemma tcp_download_worker_eq:
  "tcp_download_worker conn file_size start_time end_time =
     map_option
       (\<lambda>received.
          \<lparr>slot_writes =
             [(end_time - start_time,
               (if end_time - start_time > 0
                then real_of_int (received * 8) / (end_time - start_time) else 0),
               received)],
           thread_end = Returned\<rparr>)
       (case conn of
          ConnectRaises e \<Rightarrow> Some 0
        | SendallRaises e \<Rightarrow> Some 0
        | Established events \<Rightarrow> tcp_recv_loop file_size 0 events)"
  by (cases conn)
     (auto simp: tcp_download_worker_def speed_bps_of_eq Let_def split: option.split)

lemma udp_download_worker_cases:
  "udp_download_worker conn file_size start_time end_time =
     (case conn of
        SocketRaises \<Rightarrow> \<lparr>slot_writes = [], thread_end = Died OSError\<rparr>
      | SendtoRaises e \<Rightarrow>
          if 0 \<le> file_size \<and> file_size < 2 ^ 64
          then \<lparr>slot_writes = [(0, 0, 0, 0)], thread_end = Returned\<rparr>
          else \<lparr>slot_writes = [], thread_end = Died StructError\<rparr>
      | Listening events \<Rightarrow>
          if 0 \<le> file_size \<and> file_size < 2 ^ 64
          then (case udp_result (udp_recv_loop udp_initial events) start_time end_time of
                  Inl e' \<Rightarrow> \<lparr>slot_writes = [], thread_end = Died e'\<rparr>
                | Inr r \<Rightarrow> \<lparr>slot_writes = [r], thread_end = Returned\<rparr>)
          else \<lparr>slot_writes = [], thread_end = Died StructError\<rparr>)"
proof (cases "0 \<le> file_size \<and> file_size < 2 ^ 64")
  case True
  then show ?thesis
    by (cases conn) (simp_all add: udp_download_worker_def request_packet_eq del: struct_pack.simps)
next
  case False
  then have "file_size < 0 \<or> 2 ^ 64 \<le> file_size" by auto
  then have "struct_pack [FmtI, FmtB, FmtQ] [MAGIC_COOKIE, MSG_TYPE_REQUEST, file_size] = Inl StructError"
    by (rule request_packet_error)
  then show ?thesis
    using False by (cases conn) (auto simp: udp_download_worker_def simp del: struct_pack.simps)
qed

lemma tcp_recv_loop_counts:
  assumes "[] \<notin> set reads" "total_received + int (length (concat reads)) \<le> file_size"
  shows "tcp_recv_loop file_size total_received (map Recv reads @ rest) =
     tcp_recv_loop file_size (total_received + int (length (concat reads))) rest"
  using assms
proof (induction reads arbitrary: total_received)
  case Nil
  then show ?case by simp
next
  case (Cons r reads)
  then have r: "r \<noteq> []" and rs: "[] \<notin> set reads" by auto
  from r have "0 < int (length r)" by simp
  moreover have "total_received + (int (length r) + int (length (concat reads))) \<le> file_size"
    using Cons.prems(2) by simp
  ultimately have lt: "total_received < file_size" by linarith
  have "tcp_recv_loop file_size (total_received + int (length r)) (map Recv reads @ rest)
      = tcp_recv_loop file_size (total_received + int (length r) + int (length (concat reads))) rest"
    using Cons.prems(2) rs by (intro Cons.IH) simp_all
  then show ?case using r lt by (simp add: add.assoc)
qed

lemma tcp_recv_loop_end:
  "tcp_recv_loop file_size file_size rest = Some file_size"
  "tcp_recv_loop file_size total_received (Recv [] # rest) = Some total_received"
  "tcp_recv_loop file_size total_received (RecvRaises err # rest) = Some total_received"
  by simp_all

lemma tcp_worker_counts_reads:
  assumes "[] \<notin> set reads" "int (length (concat reads)) \<le> file_size"
    and "int (length (concat reads)) = file_size \<or> (\<exists>rest'. rest = Recv [] # rest')
         \<or> (\<exists>err rest'. rest = RecvRaises err # rest')"
  shows "tcp_download_worker (Established (map Recv reads @ rest)) file_size start_time end_time =
     Some \<lparr>slot_writes =
             [(end_time - start_time,
               (if end_time - start_time > 0
                then real_of_int (int (length (concat reads)) * 8) / (end_time - start_time) else 0),
               int (length (concat reads)))],
           thread_end = Returned\<rparr>"
proof -
  have "tcp_recv_loop file_size 0 (map Recv reads @ rest) =
      tcp_recv_loop file_size (int (length (concat reads))) rest"
    using tcp_recv_loop_counts [OF assms(1), of 0 file_size rest] assms(2) by simp
  also have "\<dots> = Some (int (length (concat reads)))"
    using assms(3) tcp_recv_loop_end by (elim disjE exE) simp_all
  finally show ?thesis
    by (simp add: tcp_download_worker_eq)
qed

lemma udp_worker_listening:
  assumes "0 \<le> file_size" "file_size < 2 ^ 64"
  shows "udp_download_worker (Listening events) file_size start_time end_time =
     \<lparr>slot_writes =
        [(end_time - start_time,
          (if end_time - start_time > 0
           then real_of_int ((\<Sum>(t, i, payload) \<leftarrow> accepted_payloads events. int (length payload)) * 8)
                  / (end_time - start_time)
           else 0),
          (\<Sum>(t, i, payload) \<leftarrow> accepted_payloads events. int (length payload)),
          (case accepted_payloads events of
             [] \<Rightarrow> 0
           | (t, i, payload) # rest \<Rightarrow>
               if t > 0
               then 100 * real (card (set (map (\<lambda>(t, i, payload). i) (accepted_payloads events))))
                      / real_of_int t
               else 0))],
      thread_end = Returned\<rparr>"
proof -
  let ?st = "udp_recv_loop udp_initial events"
  have st: "total_bytes_received ?st = (\<Sum>(t, i, payload) \<leftarrow> accepted_payloads events. int (length payload))"
    "total_segments ?st =
       (case accepted_payloads events of [] \<Rightarrow> None | (t, i, payload) # rest \<Rightarrow> Some t)"
    "received_segments ?st = set (map (\<lambda>(t, i, payload). i) (accepted_payloads events))"
    by (subst udp_recv_loop_state, simp add: udp_initial_def)+
  have pct: "(case total_segments ?st of
             None \<Rightarrow> 0
           | Some t \<Rightarrow> if t > 0 then 100 * real (card (received_segments ?st)) / real_of_int t else 0)
     = (case accepted_payloads events of
                    [] \<Rightarrow> 0
                  | (t, i, payload) # rest \<Rightarrow>
                      if t > 0
                      then 100 * real (card (set (map (\<lambda>(t, i, payload). i) (accepted_payloads events))))
                             / real_of_int t
                      else 0)"
    unfolding st by (cases "accepted_payloads events") auto
  have "udp_download_worker (Listening events) file_size start_time end_time =
      \<lparr>slot_writes = [(end_time - start_time,
          (if end_time - start_time > 0
           then real_of_int (total_bytes_received ?st * 8) / (end_time - start_time) else 0),
          total_bytes_received ?st,
          (case total_segments ?st of
             None \<Rightarrow> 0
           | Some t \<Rightarrow> if t > 0 then 100 * real (card (received_segments ?st)) / real_of_int t else 0))],
        thread_end = Returned\<rparr>"
    using assms by (simp add: udp_download_worker_cases udp_result_eq)
  then show ?thesis
    unfolding pct st(1) .
qed

text \<open>
  Claim C6. Every worker reports the throughput \<open>bytes_received * 8 / duration\<close> when the
  duration is above 0 and 0 when the duration is 0, where the duration is the difference of
  its two clock readings and \<open>bytes_received\<close> is what it counted: for a TCP worker the
  bytes of the reads its loop made (all of them when they do not exceed the requested size
  and the stream then ends or the size is reached), for a UDP worker the payload bytes of
  the segments it accepted. The division is guarded, so no worker thread dies of a
  division by zero, whatever the file size (0 included) and the clock readings; a UDP
  worker whose request could not be sent reports zeros.
\<close>

theorem throughput_guarded:
  "tcp_download_worker conn file_size start_time end_time =
     map_option
       (\<lambda>received.
          \<lparr>slot_writes =
             [(end_time - start_time,
               (if end_time - start_time > 0
                then real_of_int (received * 8) / (end_time - start_time) else 0),
               received)],
           thread_end = Returned\<rparr>)
       (case conn of
          ConnectRaises e \<Rightarrow> Some 0
        | SendallRaises e \<Rightarrow> Some 0
        | Established events \<Rightarrow> tcp_recv_loop file_size 0 events)
   \<and> (\<forall>reads rest.
         [] \<notin> set reads \<and> int (length (concat reads)) \<le> file_size
         \<and> (int (length (concat reads)) = file_size \<or> (\<exists>rest'. rest = Recv [] # rest')
              \<or> (\<exists>err rest'. rest = RecvRaises err # rest')) \<longrightarrow>
         tcp_download_worker (Established (map Recv reads @ rest)) file_size start_time end_time =
           Some \<lparr>slot_writes =
                   [(end_time - start_time,
                     (if end_time - start_time > 0
                      then real_of_int (int (length (concat reads)) * 8) / (end_time - start_time)
                      else 0),
                     int (length (concat reads)))],
                 thread_end = Returned\<rparr>)
   \<and> thread_end (udp_download_worker uconn file_size start_time end_time) \<noteq> Died ZeroDivisionError
   \<and> (0 \<le> file_size \<and> file_size < 2 ^ 64 \<longrightarrow>
        udp_download_worker (SendtoRaises err) file_size start_time end_time =
          \<lparr>slot_writes = [(0, 0, 0, 0)], thread_end = Returned\<rparr>
        \<and> udp_download_worker (Listening events) file_size start_time end_time =
          \<lparr>slot_writes =
             [(end_time - start_time,
               (if end_time - start_time > 0
                then real_of_int
                       ((\<Sum>(t, i, payload) \<leftarrow> accepted_payloads events. int (length payload)) * 8)
                     / (end_time - start_time)
                else 0),
               (\<Sum>(t, i, payload) \<leftarrow> accepted_payloads events. int (length payload)),
               (case accepted_payloads events of
                  [] \<Rightarrow> 0
                | (t, i, payload) # rest \<Rightarrow>
                    if t > 0
                    then 100 * real (card (set (map (\<lambda>(t, i, payload). i) (accepted_payloads events))))
                           / real_of_int t
                    else 0))],
           thread_end = Returned\<rparr>)"
proof (intro conjI allI impI)
  show "tcp_download_worker conn file_size start_time end_time =
     map_option
       (\<lambda>received.
          \<lparr>slot_writes =
             [(end_time - start_time,
               (if end_time - start_time > 0
                then real_of_int (received * 8) / (end_time - start_time) else 0),
               received)],
           thread_end = Returned\<rparr>)
       (case conn of
          ConnectRaises e \<Rightarrow> Some 0
        | SendallRaises e \<Rightarrow> Some 0
        | Established events \<Rightarrow> tcp_recv_loop file_size 0 events)"
    by (rule tcp_download_worker_eq)
next
  fix reads :: "byte list list" and rest :: "recv_result list"
  assume a: "[] \<notin> set reads \<and> int (length (concat reads)) \<le> file_size
         \<and> (int (length (concat reads)) = file_size \<or> (\<exists>rest'. rest = Recv [] # rest')
              \<or> (\<exists>err rest'. rest = RecvRaises err # rest'))"
  show "tcp_download_worker (Established (map Recv reads @ rest)) file_size start_time end_time =
           Some \<lparr>slot_writes =
                   [(end_time - start_time,
                     (if end_time - start_time > 0
                      then real_of_int (int (length (concat reads)) * 8) / (end_time - start_time)
                      else 0),
                     int (length (concat reads)))],
                 thread_end = Returned\<rparr>"
    using a by (intro tcp_worker_counts_reads) simp_all
next
  show "thread_end (udp_download_worker uconn file_size start_time end_time) \<noteq> Died ZeroDivisionError"
    unfolding udp_download_worker_cases
    by (cases uconn) (auto simp: udp_result_eq)
next
  assume "0 \<le> file_size \<and> file_size < 2 ^ 64"
  then show "udp_download_worker (SendtoRaises err) file_size start_time end_time =
          \<lparr>slot_writes = [(0, 0, 0, 0)], thread_end = Returned\<rparr>"
    by (simp add: udp_download_worker_cases)
next
  assume "0 \<le> file_size \<and> file_size < 2 ^ 64"
  then show "udp_download_worker (Listening events) file_size start_time end_time =
          \<lparr>slot_writes =
             [(end_time - start_time,
               (if end_time - start_time > 0
                then real_of_int
                       ((\<Sum>(t, i, payload) \<leftarrow> accepted_payloads events. int (length payload)) * 8)
                     / (end_time - start_time)
                else 0),
               (\<Sum>(t, i, payload) \<leftarrow> accepted_payloads events. int (length payload)),
               (case accepted_payloads events of
                  [] \<Rightarrow> 0
                | (t, i, payload) # rest \<Rightarrow>
                    if t > 0
                    then 100 * real (card (set (map (\<lambda>(t, i, payload). i) (accepted_payloads events))))
                           / real_of_int t
                    else 0))],
           thread_end = Returned\<rparr>"
    by (simp add: udp_worker_listening)
qed

theorem throughput_guarded_witness:
  "tcp_download_worker (Established [Recv [1, 2, 3], Recv [4, 5]]) 5 0 2
     = Some \<lparr>slot_writes = [(2, 20, 5)], thread_end = Returned\<rparr>
   \<and> tcp_download_worker (Established [Recv [1, 2, 3], Recv []]) 5 0 2
     = Some \<lparr>slot_writes = [(2, 12, 3)], thread_end = Returned\<rparr>
   \<and> tcp_download_worker (Established [Recv [1, 2, 3], Recv [4, 5]]) 5 7 7
     = Some \<lparr>slot_writes = [(0, 0, 5)], thread_end = Returned\<rparr>
   \<and> udp_download_worker
       (Listening
          [Recv [0xAB, 0xCD, 0xDC, 0xBA, 0x04, 0, 0, 0, 0, 0, 0, 0, 3, 0, 0, 0, 0, 0, 0, 0, 0, 0x42],
           Recv [1, 2, 3],
           Recv [0xAB, 0xCD, 0xDC, 0xBA, 0x04, 0, 0, 0, 0, 0, 0, 0, 3, 0, 0, 0, 0, 0, 0, 0, 2, 0x42, 0x42]])
       2500 0 2
     = \<lparr>slot_writes = [(2, 12, 3, 200 / 3)], thread_end = Returned\<rparr>
   \<and> udp_download_worker
       (Listening
          [Recv [0xAB, 0xCD, 0xDC, 0xBA, 0x04, 0, 0, 0, 0, 0, 0, 0, 3, 0, 0, 0, 0, 0, 0, 0, 0, 0x42],
           Recv [1, 2, 3],
           Recv [0xAB, 0xCD, 0xDC, 0xBA, 0x04, 0, 0, 0, 0, 0, 0, 0, 3, 0, 0, 0, 0, 0, 0, 0, 2, 0x42, 0x42]])
       2500 7 7
     = \<lparr>slot_writes = [(0, 0, 3, 200 / 3)], thread_end = Returned\<rparr>
   \<and> udp_download_worker (SendtoRaises OSError) 5 0 2
     = \<lparr>slot_writes = [(0, 0, 0, 0)], thread_end = Returned\<rparr>"
proof -
  let ?evs = "[Recv [0xAB, 0xCD, 0xDC, 0xBA, 0x04, 0, 0, 0, 0, 0, 0, 0, 3, 0, 0, 0, 0, 0, 0, 0, 0, 0x42],
           Recv [1, 2, 3],
           Recv [0xAB, 0xCD, 0xDC, 0xBA, 0x04, 0, 0, 0, 0, 0, 0, 0, 3, 0, 0, 0, 0, 0, 0, 0, 2, 0x42, 0x42 :: byte]]"
  have acc: "accepted_payloads ?evs = [(3, 0, [0x42]), (3, 2, [0x42, 0x42])]"
    by code_simp
  note tcp = throughput_guarded [THEN conjunct2, THEN conjunct1, rule_format]
  note udp = throughput_guarded [THEN conjunct2, THEN conjunct2, THEN conjunct2, rule_format]
  have a: "tcp_download_worker (Established [Recv [1, 2, 3], Recv [4, 5]]) 5 0 2
     = Some \<lparr>slot_writes = [(2, 20, 5)], thread_end = Returned\<rparr>"
    using tcp [of "[[1, 2, 3], [4, 5]]" 5 "[]" 0 2] by simp
  have b: "tcp_download_worker (Established [Recv [1, 2, 3], Recv []]) 5 0 2
     = Some \<lparr>slot_writes = [(2, 12, 3)], thread_end = Returned\<rparr>"
    using tcp [of "[[1, 2, 3]]" 5 "[Recv []]" 0 2] by simp
  have c: "tcp_download_worker (Established [Recv [1, 2, 3], Recv [4, 5]]) 5 7 7
     = Some \<lparr>slot_writes = [(0, 0, 5)], thread_end = Returned\<rparr>"
    using tcp [of "[[1, 2, 3], [4, 5]]" 5 "[]" 7 7] by simp
  have range: "(0::int) \<le> 2500 \<and> (2500::int) < 2 ^ 64" "(0::int) \<le> 5 \<and> (5::int) < 2 ^ 64"
    by simp_all
  have d: "udp_download_worker (Listening ?evs) 2500 0 2
     = \<lparr>slot_writes = [(2, 12, 3, 200 / 3)], thread_end = Returned\<rparr>"
    using udp [OF range(1), THEN conjunct2, of ?evs 0 2, unfolded acc] by simp
  have e: "udp_download_worker (Listening ?evs) 2500 7 7
     = \<lparr>slot_writes = [(0, 0, 3, 200 / 3)], thread_end = Returned\<rparr>"
    using udp [OF range(1), THEN conjunct2, of ?evs 7 7, unfolded acc] by simp
  have f: "udp_download_worker (SendtoRaises OSError) 5 0 2
     = \<lparr>slot_writes = [(0, 0, 0, 0)], thread_end = Returned\<rparr>"
    using udp [OF range(2), THEN conjunct1, of OSError 0 2] by simp
  show ?thesis
    using a b c d e f by simp
qed

section \<open>The result slot\<close>

lemma tcp_worker_writes_once:
  "tcp_download_worker conn file_size start_time end_time = Some run \<Longrightarrow>
     length (slot_writes run) = 1 \<and> thread_end run = Returned"
  unfolding tcp_download_worker_eq by auto

lemma udp_worker_writes_once:
  assumes "0 \<le> file_size" "file_size < 2 ^ 64" "uconn \<noteq> SocketRaises"
  shows "length (slot_writes (udp_download_worker uconn file_size start_time end_time)) = 1
     \<and> thread_end (udp_download_worker uconn file_size start_time end_time) = Returned"
  using assms unfolding udp_download_worker_cases
  by (cases uconn) (auto simp: udp_result_eq)

lemma udp_worker_unwritten:
  assumes "file_size < 0 \<or> 2 ^ 64 \<le> file_size"
  shows "slot_writes (udp_download_worker uconn file_size start_time end_time) = []"
  using assms unfolding udp_download_worker_cases
  by (cases uconn) auto

text \<open>
  Claim C9 says that every worker writes its result slot exactly once on every path. The
  TCP worker does, and so does the UDP worker for a file size between 0 and \<open>2^64 - 1\<close>
  (the three lemmas above). For a file size outside that range, which \<open>int(input())\<close> in
  \<open>main\<close> accepts, \<open>struct.pack\<close> at line 69 raises outside every \<^verbatim>\<open>try\<close>: the UDP
  worker's thread dies and its slot is never written.
\<close>

theorem udp_worker_negative_size_leaves_slot:
  "udp_download_worker (Listening []) (- 1) 0 1 = \<lparr>slot_writes = [], thread_end = Died StructError\<rparr>"
  by code_simp

section \<open>The TCP transfer\<close>

lemma send_chunk_length:
  assumes "0 < n" "n \<le> CHUNK_SIZE"
  shows "int (length (py_slice_to (bytes_times 0x41 CHUNK_SIZE) n)) = n"
  using assms by (simp add: py_slice_to_def bytes_times_def)

lemma send_loop_step:
  assumes "bytes_sent < file_size" "sendall_ok k"
  shows "send_loop sendall_ok file_size bytes_sent k =
     (py_slice_to (bytes_times 0x41 CHUNK_SIZE) (min (file_size - bytes_sent) CHUNK_SIZE)
        # fst (send_loop sendall_ok file_size
                 (bytes_sent + min (file_size - bytes_sent) CHUNK_SIZE) (Suc k)),
      snd (send_loop sendall_ok file_size
             (bytes_sent + min (file_size - bytes_sent) CHUNK_SIZE) (Suc k)))"
  using assms by (subst send_loop.simps) (simp add: Let_def split: prod.split)

lemma send_loop_done:
  "\<not> bytes_sent < file_size \<Longrightarrow> send_loop sendall_ok file_size bytes_sent k = ([], None)"
  by (subst send_loop.simps) simp

lemma send_loop_all_ok:
  assumes "\<forall>k. sendall_ok k"
  shows "snd (send_loop sendall_ok file_size bytes_sent k) = None
     \<and> int (length (concat (fst (send_loop sendall_ok file_size bytes_sent k))))
         = max 0 (file_size - bytes_sent)
     \<and> (\<forall>c \<in> set (fst (send_loop sendall_ok file_size bytes_sent k)).
           0 < length c \<and> int (length c) \<le> CHUNK_SIZE)"
  using assms
proof (induction sendall_ok file_size bytes_sent k rule: send_loop.induct)
  case (1 sendall_ok file_size bytes_sent k)
  show ?case
  proof (cases "bytes_sent < file_size")
    case False
    then show ?thesis by (simp add: send_loop_done)
  next
    case True
    let ?n = "min (file_size - bytes_sent) CHUNK_SIZE"
    have ts: "0 < ?n" "?n \<le> CHUNK_SIZE" "?n \<le> file_size - bytes_sent"
      using True by (simp_all add: CHUNK_SIZE_def)
    have ok: "sendall_ok k" using "1.prems" by simp
    note ih = "1.IH" [OF True refl refl ok "1.prems"]
    have len: "int (length (py_slice_to (bytes_times 0x41 CHUNK_SIZE) ?n)) = ?n"
      using ts(1,2) by (rule send_chunk_length)
    then have pos: "0 < length (py_slice_to (bytes_times 0x41 CHUNK_SIZE) ?n)"
      using ts(1) by linarith
    show ?thesis
      unfolding send_loop_step [of bytes_sent file_size sendall_ok k, OF True ok]
      using ih len pos ts by (simp del: min_less_iff_conj)
  qed
qed

lemma handle_tcp_accepted:
  assumes "recv_request [] events = Buffer data"
    and "bytes_decode data = Inr text"
    and "py_int R (py_strip text) = Inr file_size"
  shows "handle_tcp_connection R events sendall_ok =
     \<lparr>tcp_sent = fst (send_loop sendall_ok file_size 0 0),
      tcp_status = (case snd (send_loop sendall_ok file_size 0 0) of
                      Some e \<Rightarrow> ErrorWith e | None \<Rightarrow> DoneSending file_size),
      tcp_closed = True\<rparr>"
  using assms
  by (simp add: handle_tcp_connection_def tcp_body_def split: prod.split option.split)

text \<open>
  The request line a worker sends for a size that is not negative (and within the
  runtime's digit limit) is read back by the responder as that size.
\<close>

lemma decimal_digits_ascii: "\<forall>c \<in> set (decimal_digits n). ascii_digit c"
proof (induction n rule: decimal_digits.induct)
  case (1 n)
  show ?case
  proof (cases "n < 10")
    case True
    then show ?thesis by (subst decimal_digits.simps) (simp add: ascii_digit_def)
  next
    case False
    have "n mod 10 < 10" by simp
    then have "ascii_digit (48 + n mod 10)" unfolding ascii_digit_def by linarith
    then show ?thesis
      using False 1 by (subst decimal_digits.simps) simp
  qed
qed

lemma decimal_digits_nonempty: "decimal_digits n \<noteq> []"
  by (subst decimal_digits.simps) simp

lemma digits_value_snoc: "digits_value (ds @ [d]) = 10 * digits_value ds + int (d - 48)"
  by (simp add: digits_value_def)

lemma digits_value_decimal: "digits_value (decimal_digits n) = int n"
proof (induction n rule: decimal_digits.induct)
  case (1 n)
  show ?case
  proof (cases "n < 10")
    case True
    then show ?thesis by (subst decimal_digits.simps) (simp add: digits_value_def)
  next
    case False
    then have "digits_value (decimal_digits n) = 10 * int (n div 10) + int (n mod 10)"
      using 1 by (subst decimal_digits.simps) (simp add: digits_value_snoc)
    also have "\<dots> = int n" by presburger
    finally show ?thesis .
  qed
qed


lemma ascii_digit_facts:
  assumes "ascii_digit c"
  shows "c < 127" "\<not> isspace c" "\<not> PY_ISSPACE c" "digit_or_underscore c" "c \<noteq> 95" "c \<noteq> 43" "c \<noteq> 45"
  using assms by (auto simp: ascii_digit_def isspace_def PY_ISSPACE_def digit_or_underscore_def)

lemma no_double_underscore: "95 \<notin> set xs \<Longrightarrow> \<not> double_underscore xs"
  by (induction xs rule: double_underscore.induct) auto

lemma py_int_digits:
  assumes "ds \<noteq> []" "\<forall>c \<in> set ds. ascii_digit c"
    and "int_max_str_digits R = 0 \<or> length ds \<le> int_max_str_digits R"
  shows "py_int R ds = Inr (digits_value ds)"
proof -
  obtain d rest where ds: "ds = d # rest" using assms(1) by (cases ds) auto
  have d: "ascii_digit d" using assms(2) ds by simp
  have low: "map (to_ascii R) ds = ds"
    using assms(2) by (simp add: map_idI to_ascii_def ascii_digit_facts(1))
  have a: "dropWhile PY_ISSPACE ds = ds"
    using d by (simp add: ds ascii_digit_facts(3))
  have body: "takeWhile digit_or_underscore ds = ds" "dropWhile digit_or_underscore ds = []"
    using assms(2) by (simp_all add: ascii_digit_facts(4))
  have dig: "filter ascii_digit ds = ds"
    using assms(2) by simp
  have "95 \<notin> set ds" using assms(2) ascii_digit_facts(5) by blast
  then have nodbl: "\<not> double_underscore ds" by (rule no_double_underscore)
  have "ascii_digit (last ds)" using assms(1,2) by simp
  then have last: "last ds \<noteq> 95" by (rule ascii_digit_facts(5))
  have hd: "hd ds \<noteq> 95" using d ds by (simp add: ascii_digit_facts(5))
  have sgn: "(case ds of c # cs \<Rightarrow> if c = 45 then - 1 else 1 | [] \<Rightarrow> (1::int)) = 1"
    "(case ds of c # cs \<Rightarrow> if c = 43 \<or> c = 45 then cs else ds | [] \<Rightarrow> []) = ds"
    using d by (simp_all add: ds ascii_digit_facts(6,7))
  show ?thesis
    unfolding py_int_def low a Let_def sgn body dig
    using assms(1,3) nodbl last hd by auto
qed

lemma py_int_py_str:
  assumes "0 \<le> n"
    and "int_max_str_digits R = 0 \<or> length (py_str n) \<le> int_max_str_digits R"
  shows "py_int R (py_str n) = Inr n"
proof -
  have s: "py_str n = decimal_digits (nat n)" using assms(1) by (simp add: py_str_def)
  have "py_int R (decimal_digits (nat n)) = Inr (digits_value (decimal_digits (nat n)))"
    using assms(2) unfolding s
    by (intro py_int_digits decimal_digits_nonempty decimal_digits_ascii)
  then show ?thesis
    using assms(1) by (simp add: s digits_value_decimal)
qed

lemma py_strip_line:
  assumes "ds \<noteq> []" "\<forall>c \<in> set ds. ascii_digit c"
  shows "py_strip (ds @ [10]) = ds"
proof -
  have h: "\<not> isspace (hd ds)" "\<not> isspace (last ds)"
    using assms by (simp_all add: ascii_digit_facts(2))
  have "dropWhile isspace (ds @ [10]) = ds @ [10]"
    using assms(1) h(1) by (cases ds) simp_all
  moreover have "dropWhile isspace (rev (ds @ [10])) = rev ds"
  proof -
    have "isspace 10" by (simp add: isspace_def)
    then have "dropWhile isspace (rev (ds @ [10])) = dropWhile isspace (rev ds)" by simp
    also have "\<dots> = rev ds"
      using assms(1) h(2) by (cases "rev ds") (simp_all add: hd_rev [symmetric])
    finally show ?thesis .
  qed
  ultimately show ?thesis by (simp add: py_strip_def)
qed

lemma utf8_decode_ascii: "\<forall>c \<in> set xs. c < 128 \<Longrightarrow> utf8_decode xs = Some xs"
  by (induction xs) simp_all

lemma worker_request_accepted:
  assumes "0 \<le> file_size"
    and "int_max_str_digits R = 0 \<or> length (py_str file_size) \<le> int_max_str_digits R"
  shows "recv_request [] [Recv (request_bytes file_size)] = Buffer (request_bytes file_size)"
    and "bytes_decode (request_bytes file_size) = Inr (py_str file_size @ [10])"
    and "py_int R (py_strip (py_str file_size @ [10])) = Inr file_size"
proof -
  have s: "py_str file_size = decimal_digits (nat file_size)"
    using assms(1) by (simp add: py_str_def)
  have dig: "\<forall>c \<in> set (py_str file_size). ascii_digit c" "py_str file_size \<noteq> []"
    unfolding s by (simp_all add: decimal_digits_ascii decimal_digits_nonempty)
  show "recv_request [] [Recv (request_bytes file_size)] = Buffer (request_bytes file_size)"
    by (simp add: request_bytes_def)
  have small: "\<forall>c \<in> set (py_str file_size @ [10]). c < 128"
    using dig(1) ascii_digit_facts(1) by fastforce
  have byte: "unat (of_nat c :: byte) = c" if "c < 128" for c
    using that by (simp add: unat_of_nat)
  have "map unat (request_bytes file_size) = map (\<lambda>c. unat (of_nat c :: byte)) (py_str file_size @ [10])"
    unfolding request_bytes_def by (simp only: map_map comp_def)
  also have "\<dots> = py_str file_size @ [10]"
  proof (rule map_idI)
    fix c assume "c \<in> set (py_str file_size @ [10])"
    then have "c < 128" using small by blast
    then show "unat (of_nat c :: byte) = c" by (rule byte)
  qed
  finally have "map unat (request_bytes file_size) = py_str file_size @ [10]" .
  then show "bytes_decode (request_bytes file_size) = Inr (py_str file_size @ [10])"
    using small by (simp add: bytes_decode_def utf8_decode_ascii)
  show "py_int R (py_strip (py_str file_size @ [10])) = Inr file_size"
    using dig assms by (simp add: py_strip_line py_int_py_str)
qed

text \<open>
  Claim C2. For every request that the responder reads as a non-negative \<open>file_size\<close>, on
  a connection whose \<open>sendall\<close> calls all return, the responder writes exactly
  \<open>file_size\<close> bytes, in chunks of at least one and at most \<open>CHUNK_SIZE\<close> bytes, and
  closes. A TCP worker that asked for \<open>file_size\<close> bytes counts the bytes of the reads its
  \<open>recv\<close> calls return: fed the responder's bytes, cut into non-empty reads in any way, it
  has received and reports exactly those \<open>file_size\<close> bytes; fed fewer bytes before the
  stream ends, it reports the fewer bytes it read.
\<close>

theorem tcp_transfer_exact:
  assumes "recv_request [] events = Buffer data"
    and "bytes_decode data = Inr text"
    and "py_int R (py_strip text) = Inr file_size"
    and "0 \<le> file_size"
    and "\<forall>k. sendall_ok k"
  shows "tcp_status (handle_tcp_connection R events sendall_ok) = DoneSending file_size
     \<and> tcp_closed (handle_tcp_connection R events sendall_ok)
     \<and> int (length (concat (tcp_sent (handle_tcp_connection R events sendall_ok)))) = file_size
     \<and> (\<forall>c \<in> set (tcp_sent (handle_tcp_connection R events sendall_ok)).
           0 < length c \<and> int (length c) \<le> CHUNK_SIZE)
     \<and> (\<forall>reads rest.
           concat reads = concat (tcp_sent (handle_tcp_connection R events sendall_ok))
           \<and> [] \<notin> set reads \<longrightarrow>
           int (length (concat reads)) = file_size
           \<and> tcp_recv_loop file_size 0 (map Recv reads @ rest) = Some (int (length (concat reads)))
           \<and> tcp_download_worker (Established (map Recv reads @ rest)) file_size start_time end_time =
               Some \<lparr>slot_writes =
                       [(end_time - start_time,
                         (if end_time - start_time > 0
                          then real_of_int (int (length (concat reads)) * 8) / (end_time - start_time)
                          else 0),
                         int (length (concat reads)))],
                     thread_end = Returned\<rparr>)
     \<and> (\<forall>reads rest.
           [] \<notin> set reads \<and> int (length (concat reads)) < file_size \<longrightarrow>
           tcp_recv_loop file_size 0 (map Recv reads @ Recv [] # rest)
             = Some (int (length (concat reads)))
           \<and> tcp_download_worker (Established (map Recv reads @ Recv [] # rest)) file_size
                start_time end_time =
               Some \<lparr>slot_writes =
                       [(end_time - start_time,
                         (if end_time - start_time > 0
                          then real_of_int (int (length (concat reads)) * 8) / (end_time - start_time)
                          else 0),
                         int (length (concat reads)))],
                     thread_end = Returned\<rparr>)"
proof -
  let ?run = "handle_tcp_connection R events sendall_ok"
  note loop = send_loop_all_ok [OF assms(5), of file_size 0 0]
  have run: "?run = \<lparr>tcp_sent = fst (send_loop sendall_ok file_size 0 0),
      tcp_status = DoneSending file_size, tcp_closed = True\<rparr>"
    using handle_tcp_accepted [OF assms(1-3), of sendall_ok] loop by simp
  have total: "int (length (concat (tcp_sent ?run))) = file_size"
    using loop assms(4) by (simp add: run)
  have chunks: "\<forall>c \<in> set (tcp_sent ?run). 0 < length c \<and> int (length c) \<le> CHUNK_SIZE"
    using loop by (simp add: run)
  have full: "int (length (concat reads)) = file_size
           \<and> tcp_recv_loop file_size 0 (map Recv reads @ rest) = Some (int (length (concat reads)))
           \<and> tcp_download_worker (Established (map Recv reads @ rest)) file_size start_time end_time =
               Some \<lparr>slot_writes =
                       [(end_time - start_time,
                         (if end_time - start_time > 0
                          then real_of_int (int (length (concat reads)) * 8) / (end_time - start_time)
                          else 0),
                         int (length (concat reads)))],
                     thread_end = Returned\<rparr>"
    if "concat reads = concat (tcp_sent ?run)" "[] \<notin> set reads" for reads rest
  proof -
    have len: "int (length (concat reads)) = file_size"
      using that(1) total by simp
    have "tcp_recv_loop file_size 0 (map Recv reads @ rest) =
        tcp_recv_loop file_size (int (length (concat reads))) rest"
      using tcp_recv_loop_counts [OF that(2), of 0 file_size rest] len by simp
    then have "tcp_recv_loop file_size 0 (map Recv reads @ rest) = Some (int (length (concat reads)))"
      using len by (simp add: tcp_recv_loop_end(1))
    moreover note tcp_worker_counts_reads [OF that(2), of file_size rest start_time end_time]
    ultimately show ?thesis using len by simp
  qed
  have short: "tcp_recv_loop file_size 0 (map Recv reads @ Recv [] # rest)
             = Some (int (length (concat reads)))
           \<and> tcp_download_worker (Established (map Recv reads @ Recv [] # rest)) file_size
                start_time end_time =
               Some \<lparr>slot_writes =
                       [(end_time - start_time,
                         (if end_time - start_time > 0
                          then real_of_int (int (length (concat reads)) * 8) / (end_time - start_time)
                          else 0),
                         int (length (concat reads)))],
                     thread_end = Returned\<rparr>"
    if "[] \<notin> set reads" "int (length (concat reads)) < file_size" for reads rest
  proof -
    have "tcp_recv_loop file_size 0 (map Recv reads @ Recv [] # rest) =
        tcp_recv_loop file_size (int (length (concat reads))) (Recv [] # rest)"
      using tcp_recv_loop_counts [OF that(1), of 0 file_size "Recv [] # rest"] that(2) by simp
    then have "tcp_recv_loop file_size 0 (map Recv reads @ Recv [] # rest)
        = Some (int (length (concat reads)))"
      by (simp only: tcp_recv_loop_end(2))
    moreover have "tcp_download_worker (Established (map Recv reads @ Recv [] # rest)) file_size
                start_time end_time =
               Some \<lparr>slot_writes =
                       [(end_time - start_time,
                         (if end_time - start_time > 0
                          then real_of_int (int (length (concat reads)) * 8) / (end_time - start_time)
                          else 0),
                         int (length (concat reads)))],
                     thread_end = Returned\<rparr>"
      using that by (intro tcp_worker_counts_reads) auto
    ultimately show ?thesis by simp
  qed
  show ?thesis
    using total chunks full short by (simp add: run)
qed

theorem tcp_transfer_exact_witness:
  "handle_tcp_connection cpython_ascii [Recv [0x35, 0x0A]] (\<lambda>k. True) =
     \<lparr>tcp_sent = [[0x41, 0x41, 0x41, 0x41, 0x41]], tcp_status = DoneSending 5, tcp_closed = True\<rparr>
   \<and> tcp_download_worker
       (Established [Recv [0x41, 0x41], Recv [0x41, 0x41, 0x41], Recv []]) 5 0 2
     = Some \<lparr>slot_writes = [(2, 20, 5)], thread_end = Returned\<rparr>
   \<and> tcp_download_worker (Established [Recv [0x41, 0x41], Recv []]) 5 0 2
     = Some \<lparr>slot_writes = [(2, 8, 2)], thread_end = Returned\<rparr>"
proof -
  have r: "recv_request [] [Recv [0x35, 0x0A]] = Buffer [0x35, 0x0A]"
    by code_simp
  have d: "bytes_decode [0x35, 0x0A] = Inr [0x35, 0x0A]"
    by code_simp
  have p: "py_int cpython_ascii (py_strip [0x35, 0x0A]) = Inr 5"
    by code_simp
  have h: "handle_tcp_connection cpython_ascii [Recv [0x35, 0x0A]] (\<lambda>k. True) =
     \<lparr>tcp_sent = [[0x41, 0x41, 0x41, 0x41, 0x41]], tcp_status = DoneSending 5, tcp_closed = True\<rparr>"
    by code_simp
  have ok: "\<forall>k::nat. (\<lambda>k. True) k" and five: "(0::int) \<le> 5" by simp_all
  note t = tcp_transfer_exact [OF r d p five ok, of 0 2]
  note full = t [THEN conjunct2, THEN conjunct2, THEN conjunct2, THEN conjunct2, THEN conjunct1,
      rule_format, of "[[0x41, 0x41], [0x41, 0x41, 0x41]]" "[Recv []]"]
  note short = t [THEN conjunct2, THEN conjunct2, THEN conjunct2, THEN conjunct2, THEN conjunct2,
      rule_format, of "[[0x41, 0x41]]" "[]"]
  have a: "tcp_download_worker
       (Established [Recv [0x41, 0x41], Recv [0x41, 0x41, 0x41], Recv []]) 5 0 2
     = Some \<lparr>slot_writes = [(2, 20, 5)], thread_end = Returned\<rparr>"
    using full by (simp add: h)
  have b: "tcp_download_worker (Established [Recv [0x41, 0x41], Recv []]) 5 0 2
     = Some \<lparr>slot_writes = [(2, 8, 2)], thread_end = Returned\<rparr>"
    using short by simp
  show ?thesis
    using a b by (simp add: h)
qed

section \<open>Requests the TCP responder turns down\<close>

lemma to_ascii_not_space: "\<not> isspace c \<Longrightarrow> \<not> PY_ISSPACE (to_ascii R c)"
  by (auto simp: to_ascii_def isspace_def PY_ISSPACE_def split: option.split)

lemma to_ascii_sign: "to_ascii R c = 43 \<or> to_ascii R c = 45 \<or> to_ascii R c = 95 \<Longrightarrow> to_ascii R c = c"
  by (auto simp: to_ascii_def split: option.splits if_splits)

lemma not_numeric_to_ascii:
  assumes "\<not> numeric_char R c"
  shows "\<not> digit_or_underscore (to_ascii R c)" "to_ascii R c \<noteq> 43" "to_ascii R c \<noteq> 45"
  using assms to_ascii_sign [of R c]
  by (auto simp: numeric_char_def digit_or_underscore_def)

lemma dropWhile_keeps_last:
  "xs \<noteq> [] \<Longrightarrow> \<not> P (last xs) \<Longrightarrow> dropWhile P xs \<noteq> [] \<and> last (dropWhile P xs) = last xs"
  by (induction xs) auto

lemma py_strip_ends:
  "py_strip s = [] \<or> (\<not> isspace (hd (py_strip s)) \<and> \<not> isspace (last (py_strip s)))"
proof (cases "py_strip s = []")
  case True
  then show ?thesis by simp
next
  case False
  let ?a = "dropWhile isspace s"
  let ?b = "dropWhile isspace (rev ?a)"
  have b: "?b \<noteq> []" using False by (simp add: py_strip_def)
  then have "\<not> isspace (hd ?b)" by (rule hd_dropWhile)
  then have l: "\<not> isspace (last (py_strip s))"
    using b by (simp add: py_strip_def last_rev)
  have a: "?a \<noteq> []"
  proof
    assume "?a = []"
    then have "?b = dropWhile isspace (rev [])"
      by (rule arg_cong [where f = "\<lambda>x. dropWhile isspace (rev x)"])
    then have "?b = []" by simp
    with b show False by simp
  qed
  then have ha: "\<not> isspace (hd ?a)" by (rule hd_dropWhile)
  have "last (rev ?a) = hd ?a" using a by (simp add: last_rev)
  then have "last ?b = hd ?a"
    using dropWhile_keeps_last [of "rev ?a" isspace] a ha by simp
  then have "hd (py_strip s) = hd ?a"
    using b by (simp add: py_strip_def hd_rev)
  then show ?thesis using ha l by simp
qed

lemma py_int_rejects:
  assumes "s \<noteq> []" "\<not> isspace (hd s)" "\<not> isspace (last s)" "c \<in> set s" "\<not> numeric_char R c"
  shows "py_int R s = Inl ValueError"
proof -
  let ?a0 = "map (to_ascii R) s"
  have a0: "?a0 \<noteq> []" using assms(1) by simp
  have "\<not> PY_ISSPACE (hd ?a0)"
    using assms(1,2) by (simp add: hd_map to_ascii_not_space)
  then have a: "dropWhile PY_ISSPACE ?a0 = ?a0"
    using a0 by (cases ?a0) auto
  have lasta: "\<not> PY_ISSPACE (last ?a0)"
    using assms(1,3) by (simp add: last_map to_ascii_not_space)
  define unsigned where
    "unsigned = (case ?a0 of c # cs \<Rightarrow> if c = 43 \<or> c = 45 then cs else ?a0 | [] \<Rightarrow> [])"
  have c': "to_ascii R c \<in> set ?a0" using assms(4) by simp
  have cu: "to_ascii R c \<in> set unsigned"
    using c' not_numeric_to_ascii(2,3) [OF assms(5)]
    by (cases ?a0) (auto simp: unsigned_def)
  then have u: "unsigned \<noteq> []" by auto
  have lastu: "last unsigned = last ?a0"
    using u by (cases ?a0) (auto simp: unsigned_def split: if_splits)
  have "\<exists>x \<in> set unsigned. \<not> digit_or_underscore x"
    using cu not_numeric_to_ascii(1) [OF assms(5)] by blast
  then have r: "dropWhile digit_or_underscore unsigned \<noteq> []"
    by (simp add: dropWhile_eq_Nil_conv)
  have "last (takeWhile digit_or_underscore unsigned @ dropWhile digit_or_underscore unsigned)
      = last (dropWhile digit_or_underscore unsigned)"
    using r by (rule last_appendR)
  then have "last (dropWhile digit_or_underscore unsigned) = last unsigned"
    by simp
  then have "\<not> PY_ISSPACE (last (dropWhile digit_or_underscore unsigned))"
    using lasta lastu by simp
  then have "dropWhile PY_ISSPACE (dropWhile digit_or_underscore unsigned) \<noteq> []"
    using r dropWhile_keeps_last by blast
  then show ?thesis
    unfolding py_int_def a Let_def unsigned_def [symmetric] by simp
qed

lemma py_int_empty: "py_int R [] = Inl ValueError"
  by (simp add: py_int_def)

lemma py_int_stripped_rejects:
  assumes "py_strip text = [] \<or> (\<exists>c \<in> set (py_strip text). \<not> numeric_char R c)"
  shows "py_int R (py_strip text) = Inl ValueError"
proof (cases "py_strip text = []")
  case True
  then show ?thesis by (simp add: py_int_empty)
next
  case False
  then obtain c where c: "c \<in> set (py_strip text)" "\<not> numeric_char R c"
    using assms by blast
  have nsp: "\<not> isspace (hd (py_strip text))" "\<not> isspace (last (py_strip text))"
    using py_strip_ends [of "text"] False by simp_all
  show ?thesis
    by (rule py_int_rejects [OF False nsp c])
qed

lemma py_int_only_value_error: "py_int R s = Inl e \<Longrightarrow> e = ValueError"
  by (auto simp: py_int_def Let_def split: if_splits)

lemma newline_survives_strip:
  assumes "\<exists>c \<in> set pre. \<not> isspace c" "\<exists>c \<in> set post. \<not> isspace c"
  shows "10 \<in> set (py_strip (pre @ [10] @ post))"
proof -
  have "dropWhile isspace (pre @ [10] @ post) = dropWhile isspace pre @ [10] @ post"
    using assms(1) by (auto simp: dropWhile_append1)
  then have "rev (dropWhile isspace (pre @ [10] @ post)) = rev post @ [10] @ rev (dropWhile isspace pre)"
    by simp
  moreover have "\<exists>c \<in> set (rev post). \<not> isspace c" using assms(2) by simp
  ultimately have "dropWhile isspace (rev (dropWhile isspace (pre @ [10] @ post)))
      = dropWhile isspace (rev post) @ [10] @ rev (dropWhile isspace pre)"
    by (auto simp: dropWhile_append1)
  then show ?thesis by (simp add: py_strip_def)
qed

lemma newline_not_numeric: "\<not> numeric_char R 10"
  by (simp add: numeric_char_def to_ascii_def ascii_digit_def)


lemma handle_tcp_no_request:
  assumes "\<forall>data. recv_request [] events \<noteq> Buffer data"
  shows "tcp_sent (handle_tcp_connection R events sendall_ok) = []"
  using assms
  by (cases "recv_request [] events") (simp_all add: handle_tcp_connection_def tcp_body_def)

lemma handle_tcp_undecodable:
  assumes "recv_request [] events = Buffer data" "bytes_decode data = Inl e"
  shows "handle_tcp_connection R events sendall_ok =
     \<lparr>tcp_sent = [], tcp_status = ErrorWith e, tcp_closed = True\<rparr>"
  using assms by (simp add: handle_tcp_connection_def tcp_body_def)

lemma handle_tcp_invalid:
  assumes "recv_request [] events = Buffer data" "bytes_decode data = Inr str"
    and "py_int R (py_strip str) = Inl e"
  shows "handle_tcp_connection R events sendall_ok =
     \<lparr>tcp_sent = [], tcp_status = InvalidFileSize, tcp_closed = True\<rparr>"
  using assms by (simp add: handle_tcp_connection_def tcp_body_def)

lemma handle_tcp_closed: "tcp_closed (handle_tcp_connection R events sendall_ok)"
  by (simp add: handle_tcp_connection_def split: prod.split)

text \<open>
  Claim C3, as amended. The responder closes every connection. It sends no payload byte
  when no newline arrives before the peer closes, \<open>recv\<close> raises or the timeout expires;
  when the buffer is not valid UTF-8; when \<open>int\<close> rejects the whole buffer stripped of
  surrounding whitespace, which it does whenever that text is empty or holds a character
  that is not a decimal digit, a sign or an underscore; and when the text is an integer
  that is negative or zero, which \<open>int\<close> accepts and the send loop answers with nothing.
\<close>

theorem tcp_rejects_malformed:
  "tcp_closed (handle_tcp_connection R events sendall_ok)
   \<and> ((\<forall>data. recv_request [] events \<noteq> Buffer data) \<longrightarrow>
         tcp_sent (handle_tcp_connection R events sendall_ok) = [])
   \<and> (\<forall>data. recv_request [] events = Buffer data \<longrightarrow>
         (bytes_decode data = Inl UnicodeDecodeError \<longrightarrow>
            handle_tcp_connection R events sendall_ok =
              \<lparr>tcp_sent = [], tcp_status = ErrorWith UnicodeDecodeError, tcp_closed = True\<rparr>)
         \<and> (\<forall>str. bytes_decode data = Inr str \<longrightarrow>
               (py_strip str = [] \<or> (\<exists>c \<in> set (py_strip str). \<not> numeric_char R c)
                  \<or> py_int R (py_strip str) = Inl ValueError \<longrightarrow>
                  handle_tcp_connection R events sendall_ok =
                    \<lparr>tcp_sent = [], tcp_status = InvalidFileSize, tcp_closed = True\<rparr>)
               \<and> (\<forall>n. py_int R (py_strip str) = Inr n \<and> n \<le> 0 \<longrightarrow>
                     handle_tcp_connection R events sendall_ok =
                       \<lparr>tcp_sent = [], tcp_status = DoneSending n, tcp_closed = True\<rparr>)))"
proof -
  have inv: "handle_tcp_connection R events sendall_ok =
                    \<lparr>tcp_sent = [], tcp_status = InvalidFileSize, tcp_closed = True\<rparr>"
    if "recv_request [] events = Buffer data" "bytes_decode data = Inr str"
      "py_strip str = [] \<or> (\<exists>c \<in> set (py_strip str). \<not> numeric_char R c)
                  \<or> py_int R (py_strip str) = Inl ValueError" for data str
  proof -
    have "py_int R (py_strip str) = Inl ValueError"
      using that(3) py_int_stripped_rejects [of str R] by blast
    with that(1,2) show ?thesis by (rule handle_tcp_invalid)
  qed
  have neg: "handle_tcp_connection R events sendall_ok =
                       \<lparr>tcp_sent = [], tcp_status = DoneSending n, tcp_closed = True\<rparr>"
    if "recv_request [] events = Buffer data" "bytes_decode data = Inr str"
      "py_int R (py_strip str) = Inr n" "n \<le> 0" for data str n
    using handle_tcp_accepted [OF that(1-3), of sendall_ok] that(4)
    by (simp add: send_loop_done)
  show ?thesis
    using handle_tcp_closed handle_tcp_no_request handle_tcp_undecodable inv neg
    by (intro conjI allI impI) blast+
qed


theorem tcp_rejects_malformed_witness:
  "handle_tcp_connection cpython_ascii [Recv [0x61, 0x62, 0x63, 0x0A]] (\<lambda>k. True) =
     \<lparr>tcp_sent = [], tcp_status = InvalidFileSize, tcp_closed = True\<rparr>
   \<and> handle_tcp_connection cpython_ascii [Recv [0x2D, 0x35, 0x0A]] (\<lambda>k. True) =
     \<lparr>tcp_sent = [], tcp_status = DoneSending (- 5), tcp_closed = True\<rparr>
   \<and> handle_tcp_connection cpython_ascii [Recv [0xFF, 0x0A]] (\<lambda>k. True) =
     \<lparr>tcp_sent = [], tcp_status = ErrorWith UnicodeDecodeError, tcp_closed = True\<rparr>
   \<and> tcp_sent (handle_tcp_connection cpython_ascii [Recv [0x35]] (\<lambda>k. True)) = []"
proof -
  have r1: "recv_request [] [Recv [0x61, 0x62, 0x63, 0x0A]] = Buffer [0x61, 0x62, 0x63, 0x0A]"
    and d1: "bytes_decode [0x61, 0x62, 0x63, 0x0A] = Inr [0x61, 0x62, 0x63, 0x0A]"
    and s1: "py_strip [0x61, 0x62, 0x63, 0x0A] = [0x61, 0x62, 0x63]"
    and n1: "\<not> numeric_char cpython_ascii 0x61"
    by code_simp+
  have r2: "recv_request [] [Recv [0x2D, 0x35, 0x0A]] = Buffer [0x2D, 0x35, 0x0A]"
    and d2: "bytes_decode [0x2D, 0x35, 0x0A] = Inr [0x2D, 0x35, 0x0A]"
    and p2: "py_int cpython_ascii (py_strip [0x2D, 0x35, 0x0A]) = Inr (- 5)"
    by code_simp+
  have r3: "recv_request [] [Recv [0xFF, 0x0A]] = Buffer [0xFF, 0x0A]"
    and d3: "bytes_decode [0xFF, 0x0A] = Inl UnicodeDecodeError"
    by code_simp+
  have r4: "\<forall>data. recv_request [] [Recv [0x35]] \<noteq> Buffer data"
    by simp
  show ?thesis
    using tcp_rejects_malformed [of cpython_ascii "[Recv [0x61, 0x62, 0x63, 0x0A]]" "\<lambda>k. True"]
      tcp_rejects_malformed [of cpython_ascii "[Recv [0x2D, 0x35, 0x0A]]" "\<lambda>k. True"]
      tcp_rejects_malformed [of cpython_ascii "[Recv [0xFF, 0x0A]]" "\<lambda>k. True"]
      tcp_rejects_malformed [of cpython_ascii "[Recv [0x35]]" "\<lambda>k. True"]
      r4
    by (simp add: r1 d1 s1 n1 r2 d2 p2 r3 d3)
qed

text \<open>
  The claim as the specification words it fails: the request line \<open>1_0\<close> is not an ASCII
  decimal integer and is answered with ten bytes, and a buffer whose first byte is the
  newline has an empty request line and is answered from the digits that follow.
\<close>

theorem tcp_accepts_lenient_literals_counterexample:
  "\<not> ascii_decimal (request_line [0x31, 0x5F, 0x30, 0x0A])
   \<and> handle_tcp_connection cpython_ascii [Recv [0x31, 0x5F, 0x30, 0x0A]] (\<lambda>k. True) =
       \<lparr>tcp_sent = [[0x41, 0x41, 0x41, 0x41, 0x41, 0x41, 0x41, 0x41, 0x41, 0x41]],
        tcp_status = DoneSending 10, tcp_closed = True\<rparr>
   \<and> \<not> ascii_decimal (request_line [0x0A, 0x35])
   \<and> handle_tcp_connection cpython_ascii [Recv [0x0A, 0x35]] (\<lambda>k. True) =
       \<lparr>tcp_sent = [[0x41, 0x41, 0x41, 0x41, 0x41]], tcp_status = DoneSending 5, tcp_closed = True\<rparr>"
  by code_simp

text \<open>
  Claim C10, as amended. The responder parses the whole received buffer, decoded as UTF-8
  and stripped of surrounding whitespace, not the prefix before the newline. A buffer that
  is not valid UTF-8 ends the responder on the decoding error; a buffer whose text has a
  character that is not whitespace before a newline and another after it is turned down
  as an invalid file size. In both cases the connection is closed with no payload sent.
\<close>

theorem tcp_rejects_text_after_newline:
  assumes "recv_request [] events = Buffer data"
  shows "(bytes_decode data = Inl UnicodeDecodeError \<longrightarrow>
            handle_tcp_connection R events sendall_ok =
              \<lparr>tcp_sent = [], tcp_status = ErrorWith UnicodeDecodeError, tcp_closed = True\<rparr>)
     \<and> (\<forall>pre post.
           bytes_decode data = Inr (pre @ [10] @ post)
           \<and> (\<exists>c \<in> set pre. \<not> isspace c) \<and> (\<exists>c \<in> set post. \<not> isspace c) \<longrightarrow>
           handle_tcp_connection R events sendall_ok =
             \<lparr>tcp_sent = [], tcp_status = InvalidFileSize, tcp_closed = True\<rparr>)"
proof (intro conjI allI impI)
  assume "bytes_decode data = Inl UnicodeDecodeError"
  with assms show "handle_tcp_connection R events sendall_ok =
              \<lparr>tcp_sent = [], tcp_status = ErrorWith UnicodeDecodeError, tcp_closed = True\<rparr>"
    by (rule handle_tcp_undecodable)
next
  fix pre post :: "nat list"
  assume a: "bytes_decode data = Inr (pre @ [10] @ post)
           \<and> (\<exists>c \<in> set pre. \<not> isspace c) \<and> (\<exists>c \<in> set post. \<not> isspace c)"
  then have "10 \<in> set (py_strip (pre @ [10] @ post))"
    by (intro newline_survives_strip) simp_all
  then have "\<exists>c \<in> set (py_strip (pre @ [10] @ post)). \<not> numeric_char R c"
    using newline_not_numeric by blast
  then have "py_int R (py_strip (pre @ [10] @ post)) = Inl ValueError"
    by (simp add: py_int_stripped_rejects)
  with assms a show "handle_tcp_connection R events sendall_ok =
             \<lparr>tcp_sent = [], tcp_status = InvalidFileSize, tcp_closed = True\<rparr>"
    by (intro handle_tcp_invalid [of events data "pre @ [10] @ post" R ValueError]) simp_all
qed

theorem tcp_rejects_text_after_newline_witness:
  "handle_tcp_connection cpython_ascii [Recv [0x35, 0x0A, 0x78, 0x79, 0x7A]] (\<lambda>k. True) =
     \<lparr>tcp_sent = [], tcp_status = InvalidFileSize, tcp_closed = True\<rparr>
   \<and> handle_tcp_connection cpython_ascii [Recv [0x35, 0x0A, 0xFF]] (\<lambda>k. True) =
     \<lparr>tcp_sent = [], tcp_status = ErrorWith UnicodeDecodeError, tcp_closed = True\<rparr>"
proof -
  have r: "recv_request [] [Recv [0x35, 0x0A, 0x78, 0x79, 0x7A]] = Buffer [0x35, 0x0A, 0x78, 0x79, 0x7A]"
    by code_simp
  have d: "bytes_decode [0x35, 0x0A, 0x78, 0x79, 0x7A] = Inr ([0x35] @ [10] @ [0x78, 0x79, 0x7A])
      \<and> (\<exists>c \<in> set [0x35]. \<not> isspace c) \<and> (\<exists>c \<in> set [0x78, 0x79, 0x7A]. \<not> isspace c)"
    by code_simp
  have r': "recv_request [] [Recv [0x35, 0x0A, 0xFF]] = Buffer [0x35, 0x0A, 0xFF]"
    by code_simp
  have d': "bytes_decode [0x35, 0x0A, 0xFF] = Inl UnicodeDecodeError"
    by code_simp
  have "handle_tcp_connection cpython_ascii [Recv [0x35, 0x0A, 0x78, 0x79, 0x7A]] (\<lambda>k. True) =
     \<lparr>tcp_sent = [], tcp_status = InvalidFileSize, tcp_closed = True\<rparr>"
    by (rule tcp_rejects_text_after_newline [OF r, THEN conjunct2, rule_format, OF d])
  moreover have "handle_tcp_connection cpython_ascii [Recv [0x35, 0x0A, 0xFF]] (\<lambda>k. True) =
     \<lparr>tcp_sent = [], tcp_status = ErrorWith UnicodeDecodeError, tcp_closed = True\<rparr>"
    by (rule tcp_rejects_text_after_newline [OF r', THEN conjunct1, rule_format, OF d'])
  ultimately show ?thesis by simp
qed

text \<open>
  The claim as worded, for any bytes after the newline, fails when those bytes are
  whitespace: \<open>strip\<close> removes a second newline and the request is served.
\<close>

theorem tcp_accepts_trailing_whitespace_counterexample:
  "bytes_after_newline [0x35, 0x0A, 0x0A] = [0x0A]
   \<and> handle_tcp_connection cpython_ascii [Recv [0x35, 0x0A, 0x0A]] (\<lambda>k. True) =
       \<lparr>tcp_sent = [[0x41, 0x41, 0x41, 0x41, 0x41]], tcp_status = DoneSending 5, tcp_closed = True\<rparr>"
  by code_simp

end
